theory Spec2Isabelle
  imports Complex_Main "HOL-Library.AList" "HOL-Library.Sublist" "HOL-Library.Multiset"
begin

section \<open>Texas Hold'em engine: hand evaluator, game state machine, decision agent\<close>

text \<open>
  A shallow embedding of \<^verbatim>\<open>hand-evaluator.js\<close>, \<^verbatim>\<open>poker-engine.js\<close> and the
  \<^verbatim>\<open>PokerAI\<close> class. JavaScript numbers that hold card values, category ranks and
  kickers are natural numbers; differences returned by comparators are integers; chip
  amounts and strengths are exact rationals (the source computes them in IEEE doubles,
  which agree with the rationals on the integers that the engine itself produces).
  \<^verbatim>\<open>null\<close> and \<^verbatim>\<open>undefined\<close> are \<open>None\<close>; a thrown exception is \<open>Inl\<close> of an
  \<open>error\<close>.
\<close>

subsection \<open>Cards and hand results\<close>

datatype Suit = Hearts | Diamonds | Clubs | Spades

text \<open>A card of the deck (\<^verbatim>\<open>createDeck\<close>); the display strings \<^verbatim>\<open>id\<close> and
  \<^verbatim>\<open>unicode\<close> are derived from rank and suit and are not modelled.\<close>

record card =
  card_rank :: string
  card_suit :: Suit
  card_value :: nat

text \<open>The evaluation format built at the head of \<^verbatim>\<open>evaluateHand\<close>.\<close>

record evalCard =
  rank :: nat
  suit :: Suit
  rankChar :: string

record HandResult =
  hand_rank :: nat
  hand_name :: string
  kickers :: "nat list"
  hand_cards :: "evalCard list"

datatype error = TypeError | RangeError | NotANumber

definition HIGH_CARD :: nat where "HIGH_CARD = 1"
definition PAIR :: nat where "PAIR = 2"
definition TWO_PAIR :: nat where "TWO_PAIR = 3"
definition THREE_OF_A_KIND :: nat where "THREE_OF_A_KIND = 4"
definition STRAIGHT :: nat where "STRAIGHT = 5"
definition FLUSH :: nat where "FLUSH = 6"
definition FULL_HOUSE :: nat where "FULL_HOUSE = 7"
definition FOUR_OF_A_KIND :: nat where "FOUR_OF_A_KIND = 8"
definition STRAIGHT_FLUSH :: nat where "STRAIGHT_FLUSH = 9"
definition ROYAL_FLUSH :: nat where "ROYAL_FLUSH = 10"

lemmas HAND_RANKS =
  HIGH_CARD_def PAIR_def TWO_PAIR_def THREE_OF_A_KIND_def STRAIGHT_def FLUSH_def
  FULL_HOUSE_def FOUR_OF_A_KIND_def STRAIGHT_FLUSH_def ROYAL_FLUSH_def

definition HAND_NAMES :: "nat \<Rightarrow> string" where
  "HAND_NAMES r =
     (if r = 1 then ''High Card'' else if r = 2 then ''Pair''
      else if r = 3 then ''Two Pair'' else if r = 4 then ''Three of a Kind''
      else if r = 5 then ''Straight'' else if r = 6 then ''Flush''
      else if r = 7 then ''Full House'' else if r = 8 then ''Four of a Kind''
      else if r = 9 then ''Straight Flush'' else ''Royal Flush'')"

subsection \<open>Helpers of the evaluator\<close>

text \<open>\<^verbatim>\<open>xs.sort((a, b) => b.rank - a.rank)\<close>: a stable sort, highest rank first.\<close>

definition sortByRankDesc :: "evalCard list \<Rightarrow> evalCard list" where
  "sortByRankDesc cards = sort_key (\<lambda>c. - int (rank c)) cards"

text \<open>\<^verbatim>\<open>ranks.sort((a, b) => b - a)\<close> on numbers.\<close>

definition sortDesc :: "nat list \<Rightarrow> nat list" where
  "sortDesc ranks = sort_key (\<lambda>r. - int r) ranks"

text \<open>A \<^verbatim>\<open>for\<close> loop over a list that returns from the function at the first element
  for which the body produces a result, and falls out of the loop otherwise.\<close>

fun firstSome :: "('a \<Rightarrow> 'b option) \<Rightarrow> 'a list \<Rightarrow> 'b option" where
  "firstSome f [] = None"
| "firstSome f (x # xs) = (case f x of Some y \<Rightarrow> Some y | None \<Rightarrow> firstSome f xs)"

text \<open>\<^verbatim>\<open>getRankCounts\<close>: the object \<^verbatim>\<open>counts\<close> as an association list in the order
  in which the keys were first written.\<close>

definition getRankCounts :: "evalCard list \<Rightarrow> (nat \<times> nat) list" where
  "getRankCounts cards =
     fold (\<lambda>card counts. AList.map_default (rank card) 1 (\<lambda>n. n + 1) counts) cards []"

text \<open>\<^verbatim>\<open>Object.entries\<close> of an object with numeric keys: the keys that are array
  indices (below \<open>2^32 - 1\<close>) come first in ascending numeric order, any other key
  follows in insertion order. Card values of the deck are 2 to 14.\<close>

definition objectEntries :: "(nat \<times> 'v) list \<Rightarrow> (nat \<times> 'v) list" where
  "objectEntries obj =
     sort_key fst (filter (\<lambda>e. fst e < 4294967295) obj)
       @ filter (\<lambda>e. \<not> fst e < 4294967295) obj"

text \<open>\<^verbatim>\<open>getFlushCards\<close>: the suit groups in the order in which the suits were first
  seen, each group sorted by rank, highest first.\<close>

definition getFlushCards :: "evalCard list \<Rightarrow> (Suit \<times> evalCard list) list" where
  "getFlushCards cards =
     (let suitGroups =
        fold (\<lambda>card groups. AList.map_default (suit card) [card] (\<lambda>g. g @ [card]) groups)
          cards []
      in map (\<lambda>(s, g). (s, sortByRankDesc g)) suitGroups)"

text \<open>\<^verbatim>\<open>ranks.map(rank => cards.find(c => c.rank === rank))\<close>. Every rank handed to it
  is the rank of one of the cards, so \<^verbatim>\<open>find\<close> never yields \<^verbatim>\<open>undefined\<close>; the
  model keeps the cards found.\<close>

definition cardsOfRanks :: "nat list \<Rightarrow> evalCard list \<Rightarrow> evalCard list" where
  "cardsOfRanks ranks cards =
     List.map_filter (\<lambda>r. find (\<lambda>c. rank c = r) cards) ranks"

text \<open>\<^verbatim>\<open>findStraight\<close> returns \<^verbatim>\<open>{ high, cards }\<close> or \<^verbatim>\<open>null\<close>.\<close>

definition findStraight :: "evalCard list \<Rightarrow> (nat \<times> evalCard list) option" where
  "findStraight cards =
     (let uniqueRanks = sortDesc (remdups (map rank cards)) in
      if 14 \<in> set uniqueRanks \<and> 5 \<in> set uniqueRanks \<and> 4 \<in> set uniqueRanks
         \<and> 3 \<in> set uniqueRanks \<and> 2 \<in> set uniqueRanks
      then Some (5, cardsOfRanks [2, 3, 4, 5, 14] cards)
      else firstSome (\<lambda>i.
             if int (uniqueRanks ! i) - int (uniqueRanks ! (i + 4)) = 4
             then (let straightRanks = take 5 (drop i uniqueRanks)
                   in Some (hd straightRanks, cardsOfRanks straightRanks cards))
             else None)
           [0 ..< length uniqueRanks - 4])"

subsection \<open>The ten category checks\<close>

text \<open>In \<^verbatim>\<open>checkRoyalFlush\<close> the guard \<^verbatim>\<open>flushCards.length < 5\<close> reads the
  \<^verbatim>\<open>length\<close> of a plain object: it is \<^verbatim>\<open>undefined\<close>, the comparison is false and the
  early return is never taken.\<close>

definition checkRoyalFlush :: "evalCard list \<Rightarrow> HandResult option" where
  "checkRoyalFlush cards =
     firstSome (\<lambda>(s, suitCards).
        if length suitCards \<ge> 5 then
          (let ranks = sortDesc (map rank suitCards) in
           if ranks ! 0 = 14 \<and> ranks ! 1 = 13 \<and> ranks ! 2 = 12 \<and> ranks ! 3 = 11
              \<and> ranks ! 4 = 10
           then Some \<lparr>hand_rank = ROYAL_FLUSH, hand_name = HAND_NAMES ROYAL_FLUSH,
                       kickers = [14], hand_cards = take 5 suitCards\<rparr>
           else None)
        else None)
      (getFlushCards cards)"

definition checkStraightFlush :: "evalCard list \<Rightarrow> HandResult option" where
  "checkStraightFlush cards =
     firstSome (\<lambda>(s, suitCards).
        if length suitCards \<ge> 5 then
          (case findStraight suitCards of
             Some (high, straightCards) \<Rightarrow>
               Some \<lparr>hand_rank = STRAIGHT_FLUSH, hand_name = HAND_NAMES STRAIGHT_FLUSH,
                      kickers = [high], hand_cards = straightCards\<rparr>
           | None \<Rightarrow> None)
        else None)
      (getFlushCards cards)"

text \<open>\<^verbatim>\<open>[...fourCards.slice(0, 4), kicker].filter(Boolean)\<close> drops a missing kicker.\<close>

definition checkFourOfAKind :: "evalCard list \<Rightarrow> HandResult option" where
  "checkFourOfAKind cards =
     firstSome (\<lambda>(r, count).
        if count \<ge> 4 then
          (let fourCards = filter (\<lambda>c. rank c = r) cards;
               kicker = find (\<lambda>c. rank c \<noteq> r) cards
           in Some \<lparr>hand_rank = FOUR_OF_A_KIND, hand_name = HAND_NAMES FOUR_OF_A_KIND,
                     kickers = [r, (case kicker of Some k \<Rightarrow> rank k | None \<Rightarrow> 0)],
                     hand_cards = take 4 fourCards
                        @ (case kicker of Some k \<Rightarrow> [k] | None \<Rightarrow> [])\<rparr>)
        else None)
      (objectEntries (getRankCounts cards))"

text \<open>\<^verbatim>\<open>threeRank\<close> and \<^verbatim>\<open>pairRank\<close> start as \<^verbatim>\<open>null\<close>; the tests
  \<^verbatim>\<open>!threeRank\<close> and \<^verbatim>\<open>!pairRank\<close> are also true for the number 0.\<close>

definition checkFullHouse :: "evalCard list \<Rightarrow> HandResult option" where
  "checkFullHouse cards =
     (let rankCounts = objectEntries (getRankCounts cards);
          threeRank = firstSome (\<lambda>(r, count). if count \<ge> 3 then Some r else None) rankCounts
      in case threeRank of
           None \<Rightarrow> None
         | Some three \<Rightarrow>
             if three = 0 then None
             else (case firstSome (\<lambda>(r, count).
                          if r \<noteq> three \<and> count \<ge> 2 then Some r else None) rankCounts of
                     None \<Rightarrow> None
                   | Some pair \<Rightarrow>
                       if pair = 0 then None
                       else Some \<lparr>hand_rank = FULL_HOUSE, hand_name = HAND_NAMES FULL_HOUSE,
                                   kickers = [three, pair],
                                   hand_cards = take 3 (filter (\<lambda>c. rank c = three) cards)
                                      @ take 2 (filter (\<lambda>c. rank c = pair) cards)\<rparr>))"

definition checkFlush :: "evalCard list \<Rightarrow> HandResult option" where
  "checkFlush cards =
     firstSome (\<lambda>(s, suitCards).
        if length suitCards \<ge> 5 then
          (let flushHand = take 5 suitCards
           in Some \<lparr>hand_rank = FLUSH, hand_name = HAND_NAMES FLUSH,
                     kickers = map rank flushHand, hand_cards = flushHand\<rparr>)
        else None)
      (getFlushCards cards)"

definition checkStraight :: "evalCard list \<Rightarrow> HandResult option" where
  "checkStraight cards =
     (case findStraight cards of
        Some (high, straightCards) \<Rightarrow>
          Some \<lparr>hand_rank = STRAIGHT, hand_name = HAND_NAMES STRAIGHT,
                 kickers = [high], hand_cards = straightCards\<rparr>
      | None \<Rightarrow> None)"

definition checkThreeOfAKind :: "evalCard list \<Rightarrow> HandResult option" where
  "checkThreeOfAKind cards =
     firstSome (\<lambda>(r, count).
        if count \<ge> 3 then
          (let threeCards = take 3 (filter (\<lambda>c. rank c = r) cards);
               ks = take 2 (sortByRankDesc (filter (\<lambda>c. rank c \<noteq> r) cards))
           in Some \<lparr>hand_rank = THREE_OF_A_KIND, hand_name = HAND_NAMES THREE_OF_A_KIND,
                     kickers = r # map rank ks, hand_cards = threeCards @ ks\<rparr>)
        else None)
      (objectEntries (getRankCounts cards))"

definition checkTwoPair :: "evalCard list \<Rightarrow> HandResult option" where
  "checkTwoPair cards =
     (let pairs = map fst (filter (\<lambda>(r, count). count \<ge> 2)
                              (objectEntries (getRankCounts cards)))
      in if length pairs < 2 then None
         else (let sorted_pairs = sortDesc pairs;
                   highPair = sorted_pairs ! 0;
                   lowPair = sorted_pairs ! 1;
                   highPairCards = take 2 (filter (\<lambda>c. rank c = highPair) cards);
                   lowPairCards = take 2 (filter (\<lambda>c. rank c = lowPair) cards);
                   kicker = find (\<lambda>c. rank c \<noteq> highPair \<and> rank c \<noteq> lowPair) cards
               in Some \<lparr>hand_rank = TWO_PAIR, hand_name = HAND_NAMES TWO_PAIR,
                         kickers = [highPair, lowPair,
                                    (case kicker of Some k \<Rightarrow> rank k | None \<Rightarrow> 0)],
                         hand_cards = highPairCards @ lowPairCards
                            @ (case kicker of Some k \<Rightarrow> [k] | None \<Rightarrow> [])\<rparr>))"

definition checkPair :: "evalCard list \<Rightarrow> HandResult option" where
  "checkPair cards =
     firstSome (\<lambda>(r, count).
        if count \<ge> 2 then
          (let pairCards = take 2 (filter (\<lambda>c. rank c = r) cards);
               ks = take 3 (sortByRankDesc (filter (\<lambda>c. rank c \<noteq> r) cards))
           in Some \<lparr>hand_rank = PAIR, hand_name = HAND_NAMES PAIR,
                     kickers = r # map rank ks, hand_cards = pairCards @ ks\<rparr>)
        else None)
      (objectEntries (getRankCounts cards))"

definition checkHighCard :: "evalCard list \<Rightarrow> HandResult" where
  "checkHighCard cards =
     (let sortedCards = take 5 (sortByRankDesc cards)
      in \<lparr>hand_rank = HIGH_CARD, hand_name = HAND_NAMES HIGH_CARD,
          kickers = map rank sortedCards, hand_cards = sortedCards\<rparr>)"

subsection \<open>\<^verbatim>\<open>evaluateHand\<close>\<close>

text \<open>The checks run from the strongest category to the weakest and the first one that
  yields a result returns it; \<^verbatim>\<open>checkHighCard\<close> always yields one.\<close>

definition toEvalCard :: "card \<Rightarrow> evalCard" where
  "toEvalCard c = \<lparr>rank = card_value c, suit = card_suit c, rankChar = card_rank c\<rparr>"

definition evaluateHand :: "card list \<Rightarrow> HandResult" where
  "evaluateHand cards =
     (let evalCards = sortByRankDesc (map toEvalCard cards) in
      case firstSome (\<lambda>check. check evalCards)
             [checkRoyalFlush, checkStraightFlush, checkFourOfAKind, checkFullHouse,
              checkFlush, checkStraight, checkThreeOfAKind, checkTwoPair, checkPair] of
        Some handResult \<Rightarrow> handResult
      | None \<Rightarrow> checkHighCard evalCards)"

subsection \<open>Comparing hands\<close>

text \<open>\<^verbatim>\<open>hand.kickers[i] || 0\<close>: an index past the end reads \<^verbatim>\<open>undefined\<close>, which
  \<^verbatim>\<open>||\<close> replaces by 0 (as it does the number 0 itself).\<close>

definition kickerAt :: "nat list \<Rightarrow> nat \<Rightarrow> nat" where
  "kickerAt ks i = (if i < length ks then ks ! i else 0)"

function compareKickersFrom :: "nat \<Rightarrow> nat list \<Rightarrow> nat list \<Rightarrow> int" where
  "compareKickersFrom i ks1 ks2 =
     (if i < max (length ks1) (length ks2) then
        (let kicker1 = kickerAt ks1 i; kicker2 = kickerAt ks2 i in
         if kicker1 \<noteq> kicker2 then int kicker1 - int kicker2
         else compareKickersFrom (i + 1) ks1 ks2)
      else 0)"
  by pat_completeness auto
termination
  by (relation "measure (\<lambda>(i, ks1, ks2). max (length ks1) (length ks2) - i)") auto

declare compareKickersFrom.simps [simp del]

definition compareKickers :: "HandResult \<Rightarrow> HandResult \<Rightarrow> int" where
  "compareKickers hand1 hand2 = compareKickersFrom 0 (kickers hand1) (kickers hand2)"

definition compareHands :: "HandResult \<Rightarrow> HandResult \<Rightarrow> int" where
  "compareHands hand1 hand2 =
     (if hand_rank hand1 \<noteq> hand_rank hand2
      then int (hand_rank hand1) - int (hand_rank hand2)
      else compareKickers hand1 hand2)"

subsection \<open>Best five of seven\<close>

text \<open>\<^verbatim>\<open>generateCombinations(cards, k)\<close>. With \<open>k = 0\<close> and a non-empty array the
  source recurses with \<open>k - 1 = -1, -2, ...\<close> and never reaches a base case; that
  outcome is \<open>None\<close>. The loop runs for \<open>i = 0, ..., length cards - k\<close>, and not at all
  when \<open>k\<close> exceeds the length.\<close>

function generateCombinations :: "'a list \<Rightarrow> nat \<Rightarrow> 'a list list option" where
  "generateCombinations cards k =
     (if k = 1 then Some (map (\<lambda>card. [card]) cards)
      else if k = length cards then Some [cards]
      else if k = 0 then None
      else map_option concat
             (those (map (\<lambda>i. map_option (map (\<lambda>combo. cards ! i # combo))
                                 (generateCombinations (drop (i + 1) cards) (k - 1)))
                      [0 ..< Suc (length cards) - k])))"
  by pat_completeness auto
termination
  by (relation "measure (\<lambda>(cards, k). k)") auto

declare generateCombinations.simps [simp del]

text \<open>The selection loop of \<^verbatim>\<open>getBestFiveCardHand\<close>, with its two variables
  \<^verbatim>\<open>bestHand\<close> (initially \<^verbatim>\<open>null\<close>) and \<^verbatim>\<open>bestRank\<close> (initially 0).
  \<^verbatim>\<open>compareKickers(handResult, null)\<close> would throw a \<^verbatim>\<open>TypeError\<close>.\<close>

fun selectBest ::
  "HandResult list \<Rightarrow> HandResult option \<Rightarrow> nat \<Rightarrow> error + HandResult option" where
  "selectBest [] bestHand bestRank = Inr bestHand"
| "selectBest (handResult # rest) bestHand bestRank =
     (if hand_rank handResult > bestRank
      then selectBest rest (Some handResult) (hand_rank handResult)
      else if hand_rank handResult = bestRank
      then (case bestHand of
              None \<Rightarrow> Inl TypeError
            | Some best \<Rightarrow>
                if compareKickers handResult best > 0
                then selectBest rest (Some handResult) (hand_rank handResult)
                else selectBest rest bestHand bestRank)
      else selectBest rest bestHand bestRank)"

definition getBestFiveCardHand :: "card list \<Rightarrow> card list \<Rightarrow> error + HandResult option" where
  "getBestFiveCardHand playerCards communityCards =
     (let allCards = playerCards @ communityCards in
      if length allCards < 5 then Inr (Some (evaluateHand allCards))
      else (case generateCombinations allCards 5 of
              None \<Rightarrow> Inl RangeError
            | Some combinations \<Rightarrow> selectBest (map evaluateHand combinations) None 0))"

section \<open>Properties of the hand comparator\<close>

subsection \<open>The kicker loop\<close>

lemma compareKickersFrom_past:
  "max (length a) (length b) \<le> i \<Longrightarrow> compareKickersFrom i a b = 0"
  by (subst compareKickersFrom.simps) auto

lemma compareKickersFrom_diff:
  "kickerAt a i \<noteq> kickerAt b i \<Longrightarrow>
     compareKickersFrom i a b = int (kickerAt a i) - int (kickerAt b i)"
  by (subst compareKickersFrom.simps) (auto simp: kickerAt_def Let_def split: if_splits)

lemma compareKickersFrom_same:
  "kickerAt a i = kickerAt b i \<Longrightarrow> compareKickersFrom i a b = compareKickersFrom (Suc i) a b"
proof (cases "i < max (length a) (length b)")
  case True
  assume "kickerAt a i = kickerAt b i"
  with True show ?thesis
    by (subst compareKickersFrom.simps) (simp add: Let_def)
next
  case False
  then have "max (length a) (length b) \<le> i" "max (length a) (length b) \<le> Suc i"
    by linarith+
  then show ?thesis by (simp only: compareKickersFrom_past)
qed

lemma compareKickersFrom_zero_iff:
  "compareKickersFrom i a b = 0 \<longleftrightarrow> (\<forall>j\<ge>i. kickerAt a j = kickerAt b j)"
proof (induction "max (length a) (length b) - i" arbitrary: i)
  case 0
  then have "max (length a) (length b) \<le> i" by simp
  then show ?case by (auto simp: compareKickersFrom_past kickerAt_def)
next
  case (Suc n)
  show ?case
  proof (cases "kickerAt a i = kickerAt b i")
    case True
    have "n = max (length a) (length b) - Suc i" using Suc.hyps(2) by simp
    from Suc.hyps(1)[OF this]
    have "compareKickersFrom (Suc i) a b = 0 \<longleftrightarrow> (\<forall>j\<ge>Suc i. kickerAt a j = kickerAt b j)" .
    moreover have "(\<forall>j\<ge>i. kickerAt a j = kickerAt b j) \<longleftrightarrow> (\<forall>j\<ge>Suc i. kickerAt a j = kickerAt b j)"
      using True by (metis Suc_leI le_eq_less_or_eq Suc_leD)
    ultimately show ?thesis using True by (simp add: compareKickersFrom_same)
  next
    case False
    then show ?thesis by (auto simp: compareKickersFrom_diff)
  qed
qed

lemma compareKickersFrom_antisym:
  "compareKickersFrom i b a = - compareKickersFrom i a b"
proof (induction "max (length a) (length b) - i" arbitrary: i)
  case 0
  then have "max (length a) (length b) \<le> i" by simp
  then show ?case by (simp add: compareKickersFrom_past max.commute)
next
  case (Suc n)
  show ?case
  proof (cases "kickerAt a i = kickerAt b i")
    case True
    have "n = max (length a) (length b) - Suc i" using Suc.hyps(2) by simp
    from Suc.hyps(1)[OF this] True show ?thesis
      by (simp add: compareKickersFrom_same)
  next
    case False
    then show ?thesis by (simp add: compareKickersFrom_diff)
  qed
qed

lemma compareKickersFrom_trans:
  "compareKickersFrom i a b \<ge> 0 \<Longrightarrow> compareKickersFrom i b c \<ge> 0
     \<Longrightarrow> compareKickersFrom i a c \<ge> 0"
proof (induction "max (length a) (max (length b) (length c)) - i" arbitrary: i)
  case 0
  then have "max (length a) (length c) \<le> i" by simp
  then show ?case by (simp add: compareKickersFrom_past)
next
  case (Suc n)
  have n: "n = max (length a) (max (length b) (length c)) - Suc i"
    using Suc.hyps(2) by simp
  consider (eq) "kickerAt a i = kickerAt b i" "kickerAt b i = kickerAt c i"
    | (ab) "kickerAt a i \<noteq> kickerAt b i" | (bc) "kickerAt b i \<noteq> kickerAt c i"
    by blast
  then show ?case
  proof cases
    case eq
    with Suc.prems Suc.hyps(1)[OF n] show ?thesis
      by (simp add: compareKickersFrom_same)
  next
    case ab
    with Suc.prems(1) have gt: "kickerAt a i > kickerAt b i"
      by (simp add: compareKickersFrom_diff)
    have "kickerAt b i \<ge> kickerAt c i"
    proof (cases "kickerAt b i = kickerAt c i")
      case False
      with Suc.prems(2) show ?thesis by (simp add: compareKickersFrom_diff)
    qed simp
    with gt have "kickerAt a i > kickerAt c i" by simp
    then show ?thesis by (simp add: compareKickersFrom_diff)
  next
    case bc
    with Suc.prems(2) have gt: "kickerAt b i > kickerAt c i"
      by (simp add: compareKickersFrom_diff)
    have "kickerAt a i \<ge> kickerAt b i"
    proof (cases "kickerAt a i = kickerAt b i")
      case False
      with Suc.prems(1) show ?thesis by (simp add: compareKickersFrom_diff)
    qed simp
    with gt have "kickerAt a i > kickerAt c i" by simp
    then show ?thesis by (simp add: compareKickersFrom_diff)
  qed
qed

lemma compareKickersFrom_first_diff:
  "i \<le> k \<Longrightarrow> (\<forall>j. i \<le> j \<and> j < k \<longrightarrow> kickerAt a j = kickerAt b j)
     \<Longrightarrow> kickerAt a k \<noteq> kickerAt b k
     \<Longrightarrow> compareKickersFrom i a b = int (kickerAt a k) - int (kickerAt b k)"
proof (induction "k - i" arbitrary: i)
  case 0
  then have "i = k" by simp
  with "0.prems" show ?case by (simp add: compareKickersFrom_diff)
next
  case (Suc n)
  then have "i < k" by simp
  with Suc.prems have "kickerAt a i = kickerAt b i" by simp
  then have "compareKickersFrom i a b = compareKickersFrom (Suc i) a b"
    by (rule compareKickersFrom_same)
  also have "\<dots> = int (kickerAt a k) - int (kickerAt b k)"
    using Suc.hyps(2) Suc.prems \<open>i < k\<close> by (intro Suc.hyps(1)) auto
  finally show ?case .
qed


lemma compareKickersFrom_unfold:
  "i < max (length a) (length b) \<Longrightarrow>
     compareKickersFrom i a b =
       (if kickerAt a i \<noteq> kickerAt b i then int (kickerAt a i) - int (kickerAt b i)
        else compareKickersFrom (i + 1) a b)"
  by (subst compareKickersFrom.simps) (simp add: Let_def)

lemmas compareKickers_eval =
  compareKickers_def compareKickersFrom_unfold compareKickersFrom_past kickerAt_def

subsection \<open>\<^verbatim>\<open>compareHands\<close> orders hands by category, then by kickers\<close>

lemma compareHands_refl: "compareHands h h = 0"
  by (simp add: compareHands_def compareKickers_def compareKickersFrom_zero_iff)

lemma compareHands_antisym: "compareHands b a = - compareHands a b"
  using compareKickersFrom_antisym [where a = "kickers a" and b = "kickers b" and i = 0]
  by (auto simp: compareHands_def compareKickers_def)

lemma compareHands_trans:
  assumes "compareHands a b \<ge> 0" and "compareHands b c \<ge> 0"
  shows "compareHands a c \<ge> 0"
proof -
  from assms(1) have ab: "hand_rank b \<le> hand_rank a"
    by (auto simp: compareHands_def split: if_splits)
  from assms(2) have bc: "hand_rank c \<le> hand_rank b"
    by (auto simp: compareHands_def split: if_splits)
  show ?thesis
  proof (cases "hand_rank a = hand_rank c")
    case True
    with ab bc have eq: "hand_rank a = hand_rank b" "hand_rank b = hand_rank c" by simp_all
    with assms have "compareKickers a b \<ge> 0" "compareKickers b c \<ge> 0"
      by (simp_all add: compareHands_def)
    then have "compareKickers a c \<ge> 0"
      unfolding compareKickers_def by (rule compareKickersFrom_trans)
    with True show ?thesis by (simp add: compareHands_def)
  next
    case False
    with ab bc show ?thesis by (simp add: compareHands_def)
  qed
qed

lemma compareHands_zero_iff:
  "compareHands a b = 0 \<longleftrightarrow>
     hand_rank a = hand_rank b \<and> (\<forall>i. kickerAt (kickers a) i = kickerAt (kickers b) i)"
  by (simp add: compareHands_def compareKickers_def compareKickersFrom_zero_iff)

text \<open>
  Claim C2. \<^verbatim>\<open>compareHands\<close> is a total order on hand results keyed by category and
  kickers: a hand ties with itself, and hands equal in category and kicker sequence tie;
  swapping the arguments negates the result, so any two hands are comparable; the
  relation "compares at least as high" is transitive; unequal categories decide by the
  category difference alone; with equal categories the first position at which the
  kicker sequences differ (a missing entry reads as 0) decides; and the result is 0
  exactly when category and every kicker position agree.
\<close>

theorem compareHands_total_order:
  "compareHands h h = 0
   \<and> (hand_rank a = hand_rank b \<and> kickers a = kickers b \<longrightarrow> compareHands a b = 0)
   \<and> compareHands b a = - compareHands a b
   \<and> (compareHands a b \<ge> 0 \<and> compareHands b c \<ge> 0 \<longrightarrow> compareHands a c \<ge> 0)
   \<and> (hand_rank a \<noteq> hand_rank b \<longrightarrow>
        compareHands a b = int (hand_rank a) - int (hand_rank b))
   \<and> (hand_rank a = hand_rank b
        \<and> (\<forall>j<i. kickerAt (kickers a) j = kickerAt (kickers b) j)
        \<and> kickerAt (kickers a) i \<noteq> kickerAt (kickers b) i \<longrightarrow>
        compareHands a b = int (kickerAt (kickers a) i) - int (kickerAt (kickers b) i))
   \<and> (compareHands a b = 0 \<longleftrightarrow>
        hand_rank a = hand_rank b
        \<and> (\<forall>i. kickerAt (kickers a) i = kickerAt (kickers b) i))"
proof (intro conjI impI)
  show "compareHands h h = 0" by (rule compareHands_refl)
  show "compareHands a b = 0" if "hand_rank a = hand_rank b \<and> kickers a = kickers b"
    using that by (simp add: compareHands_zero_iff)
  show "compareHands b a = - compareHands a b" by (rule compareHands_antisym)
  show "compareHands a c \<ge> 0" if "compareHands a b \<ge> 0 \<and> compareHands b c \<ge> 0"
    using that compareHands_trans by blast
  show "compareHands a b = int (hand_rank a) - int (hand_rank b)"
    if "hand_rank a \<noteq> hand_rank b"
    using that by (simp add: compareHands_def)
  show "compareHands a b = int (kickerAt (kickers a) i) - int (kickerAt (kickers b) i)"
    if "hand_rank a = hand_rank b
        \<and> (\<forall>j<i. kickerAt (kickers a) j = kickerAt (kickers b) j)
        \<and> kickerAt (kickers a) i \<noteq> kickerAt (kickers b) i"
    using that compareKickersFrom_first_diff [of 0 i "kickers a" "kickers b"]
    by (simp add: compareHands_def compareKickers_def)
  show "compareHands a b = 0 \<longleftrightarrow>
        hand_rank a = hand_rank b \<and> (\<forall>i. kickerAt (kickers a) i = kickerAt (kickers b) i)"
    by (rule compareHands_zero_iff)
qed

text \<open>Three pairs of kings and a flush: the first two differ at the third kicker, the
  third at the second; the flush outranks them by category whatever its kickers.\<close>

definition kings_Q9 :: HandResult where
  "kings_Q9 = \<lparr>hand_rank = PAIR, hand_name = HAND_NAMES PAIR,
               kickers = [13, 12, 9, 4], hand_cards = []\<rparr>"

definition kings_Q7 :: HandResult where
  "kings_Q7 = \<lparr>hand_rank = PAIR, hand_name = HAND_NAMES PAIR,
               kickers = [13, 12, 7, 5], hand_cards = []\<rparr>"

definition kings_J8 :: HandResult where
  "kings_J8 = \<lparr>hand_rank = PAIR, hand_name = HAND_NAMES PAIR,
               kickers = [13, 11, 8, 6], hand_cards = []\<rparr>"

definition low_flush :: HandResult where
  "low_flush = \<lparr>hand_rank = FLUSH, hand_name = HAND_NAMES FLUSH,
                kickers = [7, 5, 4, 3, 2], hand_cards = []\<rparr>"

theorem compareHands_total_order_witness:
  "compareHands kings_Q9 kings_Q7 = 2 \<and> compareHands kings_Q7 kings_J8 = 1
   \<and> compareHands kings_Q9 kings_J8 \<ge> 0
   \<and> compareHands kings_Q7 kings_Q9 = - 2
   \<and> compareHands low_flush kings_Q9 = 4
   \<and> compareHands kings_Q9 kings_Q9 = 0"
proof -
  have ab: "compareHands kings_Q9 kings_Q7 = 2"
    by (simp add: compareHands_def kings_Q9_def kings_Q7_def compareKickers_eval)
  have bc: "compareHands kings_Q7 kings_J8 = 1"
    by (simp add: compareHands_def kings_Q7_def kings_J8_def compareKickers_eval)
  have fl: "hand_rank low_flush \<noteq> hand_rank kings_Q9"
    by (simp add: low_flush_def kings_Q9_def HAND_RANKS)
  have fl_val: "int (hand_rank low_flush) - int (hand_rank kings_Q9) = 4"
    by (simp add: low_flush_def kings_Q9_def HAND_RANKS)
  note t1 = compareHands_total_order [of kings_Q9 kings_Q9 kings_Q7 kings_J8 2]
  note t2 = compareHands_total_order [of kings_Q9 low_flush kings_Q9 kings_Q9 0]
  from t1 ab bc have "compareHands kings_Q9 kings_J8 \<ge> 0" by simp
  moreover from t1 ab have "compareHands kings_Q7 kings_Q9 = - 2" by simp
  moreover from t2 fl fl_val have "compareHands low_flush kings_Q9 = 4" by simp
  moreover from t2 have "compareHands kings_Q9 kings_Q9 = 0" by simp
  ultimately show ?thesis using ab bc by simp
qed

section \<open>Properties of the evaluator\<close>

subsection \<open>Every evaluation lands in one of the ten categories\<close>

lemma firstSome_SomeD: "firstSome f xs = Some y \<Longrightarrow> \<exists>x\<in>set xs. f x = Some y"
  by (induction xs) (auto split: option.splits)

lemma firstSome_None_iff: "firstSome f xs = None \<longleftrightarrow> (\<forall>x\<in>set xs. f x = None)"
  by (induction xs) (auto split: option.splits)

lemma checkRoyalFlush_rank: "checkRoyalFlush cs = Some h \<Longrightarrow> hand_rank h = ROYAL_FLUSH"
  unfolding checkRoyalFlush_def
  by (drule firstSome_SomeD) (auto simp: Let_def split: if_splits)

lemma checkStraightFlush_rank:
  "checkStraightFlush cs = Some h \<Longrightarrow> hand_rank h = STRAIGHT_FLUSH"
  unfolding checkStraightFlush_def
  by (drule firstSome_SomeD) (auto simp: Let_def split: if_splits option.splits)

lemma checkFourOfAKind_rank: "checkFourOfAKind cs = Some h \<Longrightarrow> hand_rank h = FOUR_OF_A_KIND"
  unfolding checkFourOfAKind_def
  by (drule firstSome_SomeD) (auto simp: Let_def split: if_splits)

lemma checkFullHouse_rank: "checkFullHouse cs = Some h \<Longrightarrow> hand_rank h = FULL_HOUSE"
  unfolding checkFullHouse_def
  by (auto simp: Let_def split: if_splits option.splits)

lemma checkFlush_rank: "checkFlush cs = Some h \<Longrightarrow> hand_rank h = FLUSH"
  unfolding checkFlush_def
  by (drule firstSome_SomeD) (auto simp: Let_def split: if_splits)

lemma checkStraight_rank: "checkStraight cs = Some h \<Longrightarrow> hand_rank h = STRAIGHT"
  unfolding checkStraight_def
  by (auto split: option.splits)

lemma checkThreeOfAKind_rank:
  "checkThreeOfAKind cs = Some h \<Longrightarrow> hand_rank h = THREE_OF_A_KIND"
  unfolding checkThreeOfAKind_def
  by (drule firstSome_SomeD) (auto simp: Let_def split: if_splits)

lemma checkTwoPair_rank: "checkTwoPair cs = Some h \<Longrightarrow> hand_rank h = TWO_PAIR"
  unfolding checkTwoPair_def
  by (auto simp: Let_def split: if_splits)

lemma checkPair_rank: "checkPair cs = Some h \<Longrightarrow> hand_rank h = PAIR"
  unfolding checkPair_def
  by (drule firstSome_SomeD) (auto simp: Let_def split: if_splits)

lemma checkHighCard_rank: "hand_rank (checkHighCard cs) = HIGH_CARD"
  by (simp add: checkHighCard_def Let_def)

lemmas check_ranks =
  checkRoyalFlush_rank checkStraightFlush_rank checkFourOfAKind_rank checkFullHouse_rank
  checkFlush_rank checkStraight_rank checkThreeOfAKind_rank checkTwoPair_rank checkPair_rank

lemma evaluateHand_rank_cases:
  "hand_rank (evaluateHand cards) \<in> {1 .. 10}"
proof -
  define ec where "ec = sortByRankDesc (map toEvalCard cards)"
  let ?checks = "[checkRoyalFlush, checkStraightFlush, checkFourOfAKind, checkFullHouse,
              checkFlush, checkStraight, checkThreeOfAKind, checkTwoPair, checkPair]"
  show ?thesis
  proof (cases "firstSome (\<lambda>check. check ec) ?checks")
    case None
    then show ?thesis
      by (simp add: evaluateHand_def Let_def ec_def [symmetric] checkHighCard_rank HAND_RANKS)
  next
    case (Some h)
    then obtain check where "check \<in> set ?checks" "check ec = Some h"
      by (blast dest: firstSome_SomeD)
    then have "hand_rank h \<in> {1 .. 10}"
      by (auto dest!: check_ranks simp: HAND_RANKS)
    with Some show ?thesis
      by (simp add: evaluateHand_def Let_def ec_def [symmetric])
  qed
qed


section \<open>Best five of seven\<close>

subsection \<open>The combinations are the five-card sublists\<close>

lemma those_map_Some:
  "(\<And>x. x \<in> set xs \<Longrightarrow> f x = Some (g x)) \<Longrightarrow> those (map f xs) = Some (map g xs)"
  by (induction xs) auto

lemma subseq_pick:
  assumes "i < length cards" "subseq c (drop (i + 1) cards)"
  shows "subseq (cards ! i # c) cards"
proof -
  have "cards = take i cards @ cards ! i # drop (i + 1) cards"
    using assms(1) by (simp add: id_take_nth_drop)
  moreover have "subseq (cards ! i # c) (take i cards @ cards ! i # drop (i + 1) cards)"
    using assms(2) by (intro subseq_drop_many subseq_Cons2)
  ultimately show ?thesis by simp
qed

lemma subseq_Cons_pick:
  assumes "subseq (x # c) cards"
  shows "\<exists>i. i + length c < length cards \<and> cards ! i = x \<and> subseq c (drop (i + 1) cards)"
proof -
  from assms obtain us v vs where *: "cards = us @ v # vs" "x = v" "subseq c vs"
    by (auto dest: list_emb_ConsD)
  have "length c \<le> length vs" using *(3) by (rule list_emb_length)
  with * show ?thesis by (intro exI[of _ "length us"]) auto
qed

lemma generateCombinations_spec:
  "1 \<le> k \<Longrightarrow> \<exists>cs. generateCombinations cards k = Some cs
      \<and> set cs = {c. subseq c cards \<and> length c = k}"
proof (induction k arbitrary: cards)
  case 0
  then show ?case by simp
next
  case (Suc k)
  show ?case
  proof (cases "Suc k = 1")
    case True
    have "set (map (\<lambda>card. [card]) cards) = {c. subseq c cards \<and> length c = 1}"
      by (auto simp: length_Suc_conv subseq_singleton_left)
    with True show ?thesis by (subst generateCombinations.simps) simp
  next
    case k2: False
    then have k1: "1 \<le> k" by simp
    show ?thesis
    proof (cases "Suc k = length cards")
      case True
      have "{c. subseq c cards \<and> length c = length cards} = {cards}"
        by (auto dest: subseq_same_length)
      with True k2 show ?thesis by (subst generateCombinations.simps) simp
    next
      case False
      define g where "g i = the (generateCombinations (drop (i + 1) cards) k)" for i
      have g: "generateCombinations (drop (i + 1) cards) k = Some (g i)
          \<and> set (g i) = {c. subseq c (drop (i + 1) cards) \<and> length c = k}" for i
      proof -
        from Suc.IH [OF k1, of "drop (i + 1) cards"] obtain cs where
          cs: "generateCombinations (drop (i + 1) cards) k = Some cs"
              "set cs = {c. subseq c (drop (i + 1) cards) \<and> length c = k}" by blast
        then have "g i = cs" by (simp add: g_def)
        with cs show ?thesis by simp
      qed
      let ?is = "[0 ..< Suc (length cards) - Suc k]"
      have th: "those (map (\<lambda>i. map_option (map (\<lambda>combo. cards ! i # combo))
                   (generateCombinations (drop (i + 1) cards) (Suc k - 1))) ?is)
            = Some (map (\<lambda>i. map (\<lambda>combo. cards ! i # combo) (g i)) ?is)"
        using g by (intro those_map_Some) simp
      have eq: "generateCombinations cards (Suc k)
            = Some (concat (map (\<lambda>i. map (\<lambda>combo. cards ! i # combo) (g i)) ?is))"
        using k2 False by (subst generateCombinations.simps) (simp only: th, simp)
      have "set (concat (map (\<lambda>i. map (\<lambda>combo. cards ! i # combo) (g i)) ?is))
            = {c. subseq c cards \<and> length c = Suc k}" (is "?L = ?R")
      proof (intro set_eqI iffI)
        fix c assume "c \<in> ?L"
        then obtain i c' where i: "i < Suc (length cards) - Suc k" and c': "c' \<in> set (g i)"
          and c: "c = cards ! i # c'" by auto
        from c' g have "subseq c' (drop (i + 1) cards)" "length c' = k" by auto
        moreover from i have "i < length cards" by simp
        ultimately show "c \<in> ?R" using c subseq_pick by auto
      next
        fix c assume "c \<in> ?R"
        then have sc: "subseq c cards" and lc: "length c = Suc k" by auto
        from lc obtain x c' where c: "c = x # c'" and lc': "length c' = k"
          by (auto simp: length_Suc_conv)
        have "\<exists>i. i + length c' < length cards \<and> cards ! i = x
                \<and> subseq c' (drop (i + 1) cards)"
          using sc unfolding c by (rule subseq_Cons_pick)
        then obtain i where i: "i + length c' < length cards" "cards ! i = x"
          "subseq c' (drop (i + 1) cards)" by (elim exE conjE)
        from i(3) lc' g have "c' \<in> set (g i)" by auto
        moreover from i(1) lc' have "i < Suc (length cards) - Suc k" by simp
        ultimately show "c \<in> ?L" using c i(2) by auto
      qed
      with eq show ?thesis by simp
    qed
  qed
qed


text \<open>There are \<open>length cards choose k\<close> of them.\<close>

lemma hockey_stick:
  "(\<Sum>i<Suc n - Suc k. (n - Suc i) choose k) = n choose Suc k"
proof (induction n)
  case 0
  then show ?case by simp
next
  case (Suc n)
  show ?case
  proof (cases "k \<le> n")
    case True
    then have "Suc (Suc n) - Suc k = Suc (n - k)" by simp
    then have "(\<Sum>i<Suc (Suc n) - Suc k. (Suc n - Suc i) choose k)
          = (\<Sum>i<Suc (n - k). (n - i) choose k)" by simp
    also have "\<dots> = (n choose k) + (\<Sum>i<n - k. (n - Suc i) choose k)"
      by (simp only: sum.lessThan_Suc_shift) simp
    also have "\<dots> = (n choose k) + (n choose Suc k)" using Suc.IH by simp
    finally show ?thesis by simp
  next
    case False
    then show ?thesis by simp
  qed
qed

lemma generateCombinations_length:
  "1 \<le> k \<Longrightarrow> \<exists>cs. generateCombinations cards k = Some cs
      \<and> length cs = length cards choose k"
proof (induction k arbitrary: cards)
  case 0
  then show ?case by simp
next
  case (Suc k)
  show ?case
  proof (cases "Suc k = 1")
    case True
    then show ?thesis by (subst generateCombinations.simps) simp
  next
    case k2: False
    then have k1: "1 \<le> k" by simp
    show ?thesis
    proof (cases "Suc k = length cards")
      case True
      with k2 show ?thesis by (subst generateCombinations.simps) simp
    next
      case False
      define g where "g i = the (generateCombinations (drop (i + 1) cards) k)" for i
      have g: "generateCombinations (drop (i + 1) cards) k = Some (g i)
          \<and> length (g i) = (length cards - Suc i) choose k" for i
      proof -
        from Suc.IH [OF k1, of "drop (i + 1) cards"] obtain cs where
          cs: "generateCombinations (drop (i + 1) cards) k = Some cs"
              "length cs = length (drop (i + 1) cards) choose k" by blast
        then have "g i = cs" by (simp add: g_def)
        with cs show ?thesis by simp
      qed
      let ?is = "[0 ..< Suc (length cards) - Suc k]"
      have th: "those (map (\<lambda>i. map_option (map (\<lambda>combo. cards ! i # combo))
                   (generateCombinations (drop (i + 1) cards) (Suc k - 1))) ?is)
            = Some (map (\<lambda>i. map (\<lambda>combo. cards ! i # combo) (g i)) ?is)"
        using g by (intro those_map_Some) simp
      have eq: "generateCombinations cards (Suc k)
            = Some (concat (map (\<lambda>i. map (\<lambda>combo. cards ! i # combo) (g i)) ?is))"
        using k2 False by (subst generateCombinations.simps) (simp only: th, simp)
      have "length (concat (map (\<lambda>i. map (\<lambda>combo. cards ! i # combo) (g i)) ?is))
            = sum_list (map (\<lambda>i. (length cards - Suc i) choose k) ?is)"
        using g by (simp add: length_concat comp_def)
      also have "\<dots> = (\<Sum>i<Suc (length cards) - Suc k. (length cards - Suc i) choose k)"
        by (simp add: interv_sum_list_conv_sum_set_nat atLeast0LessThan)
      also have "\<dots> = length cards choose Suc k" by (rule hockey_stick)
      finally show ?thesis using eq by simp
    qed
  qed
qed

subsection \<open>The selection loop keeps a maximum\<close>

lemma selectBest_from:
  "\<exists>r. selectBest hs (Some b) (hand_rank b) = Inr (Some r)
       \<and> r \<in> insert b (set hs)
       \<and> compareHands r b \<ge> 0
       \<and> (\<forall>h\<in>set hs. compareHands r h \<ge> 0)"
proof (induction hs arbitrary: b)
  case Nil
  then show ?case by (simp add: compareHands_refl)
next
  case (Cons h hs)
  show ?case
  proof (cases "hand_rank h > hand_rank b
                \<or> (hand_rank h = hand_rank b \<and> compareKickers h b > 0)")
    case True
    then have step: "selectBest (h # hs) (Some b) (hand_rank b)
                     = selectBest hs (Some h) (hand_rank h)" by auto
    from True have hb: "compareHands h b \<ge> 0" by (auto simp: compareHands_def)
    from Cons.IH [of h] obtain r where r: "selectBest hs (Some h) (hand_rank h) = Inr (Some r)"
      "r \<in> insert h (set hs)" "compareHands r h \<ge> 0" "\<forall>x\<in>set hs. compareHands r x \<ge> 0"
      by blast
    from r(3) hb have "compareHands r b \<ge> 0" by (rule compareHands_trans)
    with r step show ?thesis by auto
  next
    case False
    then have step: "selectBest (h # hs) (Some b) (hand_rank b)
                     = selectBest hs (Some b) (hand_rank b)" by auto
    from False have "compareHands h b \<le> 0" by (auto simp: compareHands_def)
    then have bh: "compareHands b h \<ge> 0" using compareHands_antisym [of h b] by simp
    from Cons.IH [of b] obtain r where r: "selectBest hs (Some b) (hand_rank b) = Inr (Some r)"
      "r \<in> insert b (set hs)" "compareHands r b \<ge> 0" "\<forall>x\<in>set hs. compareHands r x \<ge> 0"
      by blast
    from r(3) bh have "compareHands r h \<ge> 0" by (rule compareHands_trans)
    with r step show ?thesis by auto
  qed
qed

lemma selectBest_initial:
  assumes "hs \<noteq> []" and "\<forall>h\<in>set hs. hand_rank h > 0"
  shows "\<exists>r. selectBest hs None 0 = Inr (Some r) \<and> r \<in> set hs
           \<and> (\<forall>h\<in>set hs. compareHands r h \<ge> 0)"
proof -
  from assms(1) obtain h rest where hs: "hs = h # rest" by (cases hs) auto
  with assms(2) have "selectBest hs None 0 = selectBest rest (Some h) (hand_rank h)" by simp
  with selectBest_from [of rest h] hs show ?thesis by auto
qed


subsection \<open>The result is a maximum over the five-card sublists\<close>

lemma evaluateHand_rank_pos: "0 < hand_rank (evaluateHand cards)"
  using evaluateHand_rank_cases [of cards] by simp

lemma getBestFiveCardHand_maximum:
  assumes "5 \<le> length (playerCards @ communityCards)"
  shows "\<exists>best. getBestFiveCardHand playerCards communityCards = Inr (Some best)
     \<and> (\<forall>c. subseq c (playerCards @ communityCards) \<and> length c = 5
            \<longrightarrow> compareHands best (evaluateHand c) \<ge> 0)
     \<and> (\<exists>c. subseq c (playerCards @ communityCards) \<and> length c = 5
            \<and> best = evaluateHand c)"
proof -
  let ?all = "playerCards @ communityCards"
  from generateCombinations_spec [of 5 ?all] obtain cs where
    cs: "generateCombinations ?all 5 = Some cs"
        "set cs = {c. subseq c ?all \<and> length c = 5}" by auto
  from generateCombinations_length [of 5 ?all] cs(1) have "length cs = length ?all choose 5"
    by auto
  with assms have "cs \<noteq> []"
    by (metis length_0_conv not_less zero_less_binomial_iff less_numeral_extra(3))
  then have ne: "map evaluateHand cs \<noteq> []" by simp
  have pos: "\<forall>h\<in>set (map evaluateHand cs). hand_rank h > 0"
    using evaluateHand_rank_pos by simp
  from selectBest_initial [OF ne pos] obtain r where
    r: "selectBest (map evaluateHand cs) None 0 = Inr (Some r)"
       "r \<in> set (map evaluateHand cs)"
       "\<forall>h\<in>set (map evaluateHand cs). compareHands r h \<ge> 0" by blast
  from assms cs(1) r(1) have "getBestFiveCardHand playerCards communityCards = Inr (Some r)"
    by (simp add: getBestFiveCardHand_def Let_def)
  moreover from r(3) cs(2) have "\<forall>c. subseq c ?all \<and> length c = 5
            \<longrightarrow> compareHands r (evaluateHand c) \<ge> 0" by auto
  moreover from r(2) cs(2) have "\<exists>c. subseq c ?all \<and> length c = 5 \<and> r = evaluateHand c"
    by auto
  ultimately show ?thesis by blast
qed


text \<open>
  Claim C1. For seven cards (hole cards followed by community cards)
  \<^verbatim>\<open>generateCombinations\<close> yields 21 combinations, which are exactly the five-card
  sublists of the input, and \<^verbatim>\<open>getBestFiveCardHand\<close> returns a hand result that
  compares at least as high as \<^verbatim>\<open>evaluateHand\<close> of every one of them under
  \<^verbatim>\<open>compareHands\<close> and is the evaluation of one of them.
\<close>

theorem getBestFiveCardHand_seven_cards:
  assumes "length (playerCards @ communityCards) = 7"
  shows "\<exists>best combinations.
       generateCombinations (playerCards @ communityCards) 5 = Some combinations
     \<and> length combinations = 21
     \<and> set combinations = {c. subseq c (playerCards @ communityCards) \<and> length c = 5}
     \<and> getBestFiveCardHand playerCards communityCards = Inr (Some best)
     \<and> (\<forall>c. subseq c (playerCards @ communityCards) \<and> length c = 5
            \<longrightarrow> compareHands best (evaluateHand c) \<ge> 0)
     \<and> (\<exists>c. subseq c (playerCards @ communityCards) \<and> length c = 5
            \<and> best = evaluateHand c)"
proof -
  let ?all = "playerCards @ communityCards"
  from generateCombinations_spec [of 5 ?all] obtain cs where
    cs: "generateCombinations ?all 5 = Some cs"
        "set cs = {c. subseq c ?all \<and> length c = 5}" by auto
  have "(7::nat) choose 5 = 21" by (simp add: eval_nat_numeral)
  with generateCombinations_length [of 5 ?all] cs(1) assms have len: "length cs = 21"
    by auto
  from assms have "5 \<le> length ?all" by simp
  from getBestFiveCardHand_maximum [OF this] cs len show ?thesis by blast
qed

definition mkCard :: "string \<Rightarrow> Suit \<Rightarrow> nat \<Rightarrow> card" where
  "mkCard r s v = \<lparr>card_rank = r, card_suit = s, card_value = v\<rparr>"

text \<open>Hole cards 7c 7d on the board 7h 3s 3d 9c Ac; one of the 21 sublists is the full
  house 7c 7d 7h 3s 3d.\<close>

theorem getBestFiveCardHand_seven_cards_witness:
  "length ([mkCard ''7'' Clubs 7, mkCard ''7'' Diamonds 7]
           @ [mkCard ''7'' Hearts 7, mkCard ''3'' Spades 3, mkCard ''3'' Diamonds 3,
              mkCard ''9'' Clubs 9, mkCard ''A'' Clubs 14]) = 7
   \<and> (\<exists>best. getBestFiveCardHand [mkCard ''7'' Clubs 7, mkCard ''7'' Diamonds 7]
                 [mkCard ''7'' Hearts 7, mkCard ''3'' Spades 3, mkCard ''3'' Diamonds 3,
                  mkCard ''9'' Clubs 9, mkCard ''A'' Clubs 14] = Inr (Some best)
        \<and> compareHands best
             (evaluateHand [mkCard ''7'' Clubs 7, mkCard ''7'' Diamonds 7,
                 mkCard ''7'' Hearts 7, mkCard ''3'' Spades 3, mkCard ''3'' Diamonds 3]) \<ge> 0)"
proof -
  let ?hole = "[mkCard ''7'' Clubs 7, mkCard ''7'' Diamonds 7]"
  let ?board = "[mkCard ''7'' Hearts 7, mkCard ''3'' Spades 3, mkCard ''3'' Diamonds 3,
                 mkCard ''9'' Clubs 9, mkCard ''A'' Clubs 14]"
  let ?five = "[mkCard ''7'' Clubs 7, mkCard ''7'' Diamonds 7,
                 mkCard ''7'' Hearts 7, mkCard ''3'' Spades 3, mkCard ''3'' Diamonds 3]"
  have len: "length (?hole @ ?board) = 7" by simp
  have sub: "subseq ?five (?hole @ ?board) \<and> length ?five = 5" by simp
  from getBestFiveCardHand_seven_cards [OF len] obtain best where
    "getBestFiveCardHand ?hole ?board = Inr (Some best)"
    "\<forall>c. subseq c (?hole @ ?board) \<and> length c = 5
          \<longrightarrow> compareHands best (evaluateHand c) \<ge> 0" by blast
  with sub have "getBestFiveCardHand ?hole ?board = Inr (Some best)
      \<and> compareHands best (evaluateHand ?five) \<ge> 0" by blast
  with len show ?thesis by blast
qed

section \<open>Rank counts and suit groups\<close>

text \<open>The two objects built by \<^verbatim>\<open>forEach\<close> hold, for every rank, the number of
  cards of that rank and, for every suit, the cards of that suit in input order.\<close>

lemma getRankCounts_snoc:
  "getRankCounts (cs @ [c]) = AList.map_default (rank c) 1 (\<lambda>n. n + 1) (getRankCounts cs)"
  by (simp add: getRankCounts_def)

lemma distinct_getRankCounts: "distinct (map fst (getRankCounts cs))"
  by (induction cs rule: rev_induct)
     (simp_all add: getRankCounts_snoc distinct_map_default, simp add: getRankCounts_def)

lemma map_of_getRankCounts:
  "map_of (getRankCounts cs) r =
     (if r \<in> rank ` set cs then Some (length (filter (\<lambda>c. rank c = r) cs)) else None)"
proof (induction cs rule: rev_induct)
  case Nil
  then show ?case by (simp add: getRankCounts_def)
next
  case (snoc c cs)
  show ?case
  proof (cases "r = rank c")
    case True
    with snoc.IH show ?thesis
      by (auto simp: getRankCounts_snoc map_of_map_default filter_empty_conv image_iff)
  next
    case False
    then show ?thesis
      by (simp add: getRankCounts_snoc map_of_map_default snoc.IH)
  qed
qed

lemma in_getRankCounts_iff:
  "(r, n) \<in> set (getRankCounts cs) \<longleftrightarrow>
     r \<in> rank ` set cs \<and> n = length (filter (\<lambda>c. rank c = r) cs)"
  by (auto simp: map_of_eq_Some_iff [OF distinct_getRankCounts, symmetric]
        map_of_getRankCounts)

lemma set_objectEntries [simp]: "set (objectEntries obj) = set obj"
  by (auto simp: objectEntries_def)

text \<open>The local variable \<^verbatim>\<open>suitGroups\<close> of \<^verbatim>\<open>getFlushCards\<close> before the groups are
  sorted.\<close>

definition suitGroups :: "evalCard list \<Rightarrow> (Suit \<times> evalCard list) list" where
  "suitGroups cards =
     fold (\<lambda>card groups. AList.map_default (suit card) [card] (\<lambda>g. g @ [card]) groups)
          cards []"

lemma suitGroups_snoc:
  "suitGroups (cs @ [c]) = AList.map_default (suit c) [c] (\<lambda>g. g @ [c]) (suitGroups cs)"
  by (simp add: suitGroups_def)

lemma distinct_suitGroups: "distinct (map fst (suitGroups cs))"
  by (induction cs rule: rev_induct)
     (simp_all add: suitGroups_snoc distinct_map_default, simp add: suitGroups_def)

lemma map_of_suitGroups:
  "map_of (suitGroups cs) s =
     (if s \<in> suit ` set cs then Some (filter (\<lambda>c. suit c = s) cs) else None)"
proof (induction cs rule: rev_induct)
  case Nil
  then show ?case by (simp add: suitGroups_def)
next
  case (snoc c cs)
  show ?case
  proof (cases "s = suit c")
    case True
    with snoc.IH show ?thesis
      by (auto simp: suitGroups_snoc map_of_map_default filter_empty_conv image_iff)
  next
    case False
    then show ?thesis
      by (simp add: suitGroups_snoc map_of_map_default snoc.IH)
  qed
qed

lemma in_suitGroups_iff:
  "(s, g) \<in> set (suitGroups cs) \<longleftrightarrow>
     s \<in> suit ` set cs \<and> g = filter (\<lambda>c. suit c = s) cs"
  by (auto simp: map_of_eq_Some_iff [OF distinct_suitGroups, symmetric]
        map_of_suitGroups)

lemma in_getFlushCards_iff:
  "(s, g) \<in> set (getFlushCards cs) \<longleftrightarrow>
     s \<in> suit ` set cs \<and> g = sortByRankDesc (filter (\<lambda>c. suit c = s) cs)"
proof -
  have "getFlushCards cs = map (\<lambda>(s, g). (s, sortByRankDesc g)) (suitGroups cs)"
    by (simp add: getFlushCards_def suitGroups_def)
  then have "(s, g) \<in> set (getFlushCards cs) \<longleftrightarrow>
      (\<exists>g'. (s, g') \<in> set (suitGroups cs) \<and> g = sortByRankDesc g')"
    by force
  then show ?thesis by (simp add: in_suitGroups_iff)
qed


subsection \<open>Sorting and the size of a suit group\<close>

lemma firstSome_SomeI:
  assumes "\<exists>x\<in>set xs. f x \<noteq> None" and "\<And>x y. x \<in> set xs \<Longrightarrow> f x = Some y \<Longrightarrow> P y"
  shows "\<exists>y. firstSome f xs = Some y \<and> P y"
proof (cases "firstSome f xs")
  case None
  with assms(1) show ?thesis by (simp add: firstSome_None_iff)
next
  case (Some y)
  with assms(2) show ?thesis by (auto dest: firstSome_SomeD)
qed

lemma length_sortByRankDesc [simp]: "length (sortByRankDesc cs) = length cs"
  by (simp add: sortByRankDesc_def)

lemma set_sortByRankDesc [simp]: "set (sortByRankDesc cs) = set cs"
  by (simp add: sortByRankDesc_def)

lemma mset_sortByRankDesc [simp]: "mset (sortByRankDesc cs) = mset cs"
  by (simp add: sortByRankDesc_def)

lemma set_sortDesc [simp]: "set (sortDesc rs) = set rs"
  by (simp add: sortDesc_def)

lemma length_sortDesc [simp]: "length (sortDesc rs) = length rs"
  by (simp add: sortDesc_def)

lemma distinct_sortDesc [simp]: "distinct (sortDesc rs) = distinct rs"
  by (simp add: sortDesc_def)

lemma sortDesc_unique:
  assumes "distinct xs" "distinct ys" "set xs = set ys" "sorted (map (\<lambda>r. - int r) ys)"
  shows "sortDesc xs = ys"
proof -
  let ?k = "\<lambda>r::nat. - int r"
  have inj: "inj ?k" by (auto simp: inj_on_def)
  have inj_on: "inj_on ?k A" for A by (auto simp: inj_on_def)
  have "map ?k (sortDesc xs) = map ?k ys"
  proof (rule sorted_distinct_set_unique)
    show "sorted (map ?k (sortDesc xs))" by (simp add: sortDesc_def)
    show "distinct (map ?k (sortDesc xs))"
      using assms(1) inj_on by (simp add: distinct_map)
    show "sorted (map ?k ys)" by fact
    show "distinct (map ?k ys)" using assms(2) inj_on by (simp add: distinct_map)
    show "set (map ?k (sortDesc xs)) = set (map ?k ys)" using assms(3) by simp
  qed
  with inj show ?thesis by (simp add: inj_map_eq_map)
qed

lemma group_length_le:
  "(s, g) \<in> set (getFlushCards cs) \<Longrightarrow> length g \<le> length cs"
  by (simp add: in_getFlushCards_iff)

lemma group_full:
  assumes "(s, g) \<in> set (getFlushCards cs)" "length cs \<le> length g"
  shows "g = sortByRankDesc cs \<and> (\<forall>c\<in>set cs. suit c = s)"
proof -
  from assms(1) have g: "g = sortByRankDesc (filter (\<lambda>c. suit c = s) cs)"
    by (simp add: in_getFlushCards_iff)
  with assms(2) have len: "length (filter (\<lambda>c. suit c = s) cs) = length cs"
    using length_filter_le [of "\<lambda>c. suit c = s" cs] by simp
  have "\<forall>c\<in>set cs. suit c = s"
  proof (rule ccontr)
    assume "\<not> (\<forall>c\<in>set cs. suit c = s)"
    then obtain c where "c \<in> set cs" "\<not> suit c = s" by blast
    then have "length (filter (\<lambda>c. suit c = s) cs) < length cs"
      by (rule length_filter_less)
    with len show False by simp
  qed
  with g show ?thesis by simp
qed

lemma count_le_one:
  "distinct (map f xs) \<Longrightarrow> length (filter (\<lambda>x. f x = r) xs) \<le> 1"
  by (induction xs) (auto simp: filter_empty_conv image_iff)


section \<open>Straights and the wheel\<close>

subsection \<open>Hands of five different ranks\<close>

lemma uniqueRanks_of_set:
  assumes "set (map rank cs) = set ys" "distinct ys" "sorted (map (\<lambda>r. - int r) ys)"
  shows "sortDesc (remdups (map rank cs)) = ys"
  by (rule sortDesc_unique) (use assms in simp_all)

lemma findStraight_wheel:
  assumes "{14, 5, 4, 3, 2} \<subseteq> rank ` set cs"
  shows "findStraight cs = Some (5, cardsOfRanks [2, 3, 4, 5, 14] cs)"
  using assms by (simp add: findStraight_def)

lemma findStraight_six_high:
  assumes "rank ` set cs = {6, 5, 4, 3, 2}"
  shows "findStraight cs = Some (6, cardsOfRanks [6, 5, 4, 3, 2] cs)"
proof -
  have u: "sortDesc (remdups (map rank cs)) = [6, 5, 4, 3, 2]"
    by (rule uniqueRanks_of_set) (use assms in auto)
  show ?thesis
    unfolding findStraight_def u by (simp add: Let_def)
qed

lemma no_counts_above_one:
  assumes "distinct (map rank cs)" "(r, n) \<in> set (objectEntries (getRankCounts cs))"
  shows "n \<le> 1"
  using assms count_le_one [of rank cs r] by (simp add: in_getRankCounts_iff)

lemma checkFourOfAKind_distinct:
  "distinct (map rank cs) \<Longrightarrow> checkFourOfAKind cs = None"
  unfolding checkFourOfAKind_def firstSome_None_iff
  by (auto dest: no_counts_above_one)

lemma checkFullHouse_distinct:
  "distinct (map rank cs) \<Longrightarrow> checkFullHouse cs = None"
proof -
  assume d: "distinct (map rank cs)"
  have "firstSome (\<lambda>(r, count). if count \<ge> 3 then Some r else None)
          (objectEntries (getRankCounts cs)) = None"
    unfolding firstSome_None_iff using d by (auto dest: no_counts_above_one)
  then show ?thesis by (simp add: checkFullHouse_def)
qed

lemma royal_needs_king:
  assumes "13 \<notin> rank ` set cs"
  shows "checkRoyalFlush cs = None"
  unfolding checkRoyalFlush_def firstSome_None_iff
proof (clarsimp simp: Let_def)
  fix s g
  assume g: "(s, g) \<in> set (getFlushCards cs)" and len: "5 \<le> length g"
    and k: "sortDesc (map rank g) ! Suc 0 = 13"
  from len have "sortDesc (map rank g) ! Suc 0 \<in> set (sortDesc (map rank g))"
    by (intro nth_mem) simp
  with k have "13 \<in> rank ` set g" by simp
  moreover from g have "set g \<subseteq> set cs" by (auto simp: in_getFlushCards_iff)
  ultimately show "sortDesc (map rank g) ! 0 = 14 \<Longrightarrow> False" using assms by auto
qed

lemma evalCards_facts:
  fixes cards :: "card list"
  defines "ec \<equiv> sortByRankDesc (map toEvalCard cards)"
  shows "length ec = length cards"
    and "rank ` set ec = card_value ` set cards"
    and "suit ` set ec = card_suit ` set cards"
    and "distinct (map card_value cards) \<Longrightarrow> distinct (map rank ec)"
proof -
  show "length ec = length cards" by (simp add: ec_def)
  show "rank ` set ec = card_value ` set cards"
    by (auto simp: ec_def toEvalCard_def image_iff)
  show "suit ` set ec = card_suit ` set cards"
    by (auto simp: ec_def toEvalCard_def image_iff)
  have "mset (map rank ec) = mset (map card_value cards)"
    by (simp add: ec_def toEvalCard_def multiset.map_comp comp_def)
  then show "distinct (map card_value cards) \<Longrightarrow> distinct (map rank ec)"
    by (metis mset_eq_imp_distinct_iff)
qed

lemma evaluateHand_straight:
  assumes len: "length cards = 5"
    and dist: "distinct (map card_value cards)"
    and noking: "13 \<notin> card_value ` set cards"
    and hi: "\<And>cs. rank ` set cs = card_value ` set cards
                \<Longrightarrow> \<exists>sc. findStraight cs = Some (high, sc)"
  shows "kickers (evaluateHand cards) = [high]
       \<and> hand_rank (evaluateHand cards) =
           (if \<exists>s. \<forall>c\<in>set cards. card_suit c = s then STRAIGHT_FLUSH else STRAIGHT)"
proof -
  define ec where "ec = sortByRankDesc (map toEvalCard cards)"
  note f = evalCards_facts [of cards, folded ec_def]
  have l5: "length ec = 5" using f(1) len by simp
  have d: "distinct (map rank ec)" using f(4) dist by simp
  have royal: "checkRoyalFlush ec = None"
    using noking f(2) by (intro royal_needs_king) simp
  have ev: "evaluateHand cards =
      (case firstSome (\<lambda>check. check ec)
             [checkRoyalFlush, checkStraightFlush, checkFourOfAKind, checkFullHouse,
              checkFlush, checkStraight, checkThreeOfAKind, checkTwoPair, checkPair] of
        Some handResult \<Rightarrow> handResult
      | None \<Rightarrow> checkHighCard ec)"
    unfolding ec_def by (simp only: evaluateHand_def Let_def)
  show ?thesis
  proof (cases "\<exists>s. \<forall>c\<in>set cards. card_suit c = s")
    case True
    then obtain s where s: "\<forall>c\<in>set cards. card_suit c = s" by blast
    from len obtain c0 where "c0 \<in> set cards" by (cases cards) auto
    with s have "s \<in> card_suit ` set cards" by force
    then have s_in: "s \<in> suit ` set ec" using f(3) by simp
    from s f(3) have all_s: "\<forall>c\<in>set ec. suit c = s" by (auto simp: image_iff) 
    let ?f = "\<lambda>(s, suitCards).
        if length suitCards \<ge> 5 then
          (case findStraight suitCards of
             Some (high, straightCards) \<Rightarrow>
               Some \<lparr>hand_rank = STRAIGHT_FLUSH, hand_name = HAND_NAMES STRAIGHT_FLUSH,
                      kickers = [high], hand_cards = straightCards\<rparr>
           | None \<Rightarrow> None)
        else None"
    have "\<exists>y. firstSome ?f (getFlushCards ec) = Some y
           \<and> (hand_rank y = STRAIGHT_FLUSH \<and> kickers y = [high])"
    proof (rule firstSome_SomeI)
      let ?g = "sortByRankDesc (filter (\<lambda>c. suit c = s) ec)"
      have mem: "(s, ?g) \<in> set (getFlushCards ec)"
        using s_in by (simp add: in_getFlushCards_iff)
      have fe: "filter (\<lambda>c. suit c = s) ec = ec" using all_s by simp
      have "rank ` set ?g = card_value ` set cards" using f(2) fe by simp
      from hi [OF this] obtain sc where "findStraight ?g = Some (high, sc)" by blast
      then have "?f (s, ?g) \<noteq> None" using l5 fe by simp
      with mem show "\<exists>x\<in>set (getFlushCards ec). ?f x \<noteq> None" by blast
    next
      fix x y assume x: "x \<in> set (getFlushCards ec)" and y: "?f x = Some y"
      obtain s' g where xg: "x = (s', g)" by (cases x)
      from y xg have lg: "5 \<le> length g" by (auto split: if_splits)
      with x xg l5 have "g = sortByRankDesc ec" using group_full [of s' g ec] by simp
      then have "rank ` set g = card_value ` set cards" using f(2) by simp
      from hi [OF this] obtain sc where "findStraight g = Some (high, sc)" by blast
      with y xg lg show "hand_rank y = STRAIGHT_FLUSH \<and> kickers y = [high]" by auto
    qed
    then obtain y where y: "checkStraightFlush ec = Some y"
      "hand_rank y = STRAIGHT_FLUSH" "kickers y = [high]"
      unfolding checkStraightFlush_def by blast
    from ev royal y(1) have "evaluateHand cards = y" by simp
    with y True show ?thesis by simp
  next
    case False
    have small: "length g < 5" if "(s, g) \<in> set (getFlushCards ec)" for s g
    proof (rule ccontr)
      assume "\<not> length g < 5"
      with that l5 have "\<forall>c\<in>set ec. suit c = s" using group_full [of s g ec] by simp
      then have "\<forall>c\<in>set cards. card_suit c = s"
        using f(3) by (metis image_eqI image_iff)
      with False show False by blast
    qed
    have sf: "checkStraightFlush ec = None"
      unfolding checkStraightFlush_def firstSome_None_iff using small by fastforce
    have fl: "checkFlush ec = None"
      unfolding checkFlush_def firstSome_None_iff using small by fastforce
    from hi [of ec] f(2) obtain sc where "findStraight ec = Some (high, sc)" by blast
    then have st: "checkStraight ec = Some \<lparr>hand_rank = STRAIGHT,
        hand_name = HAND_NAMES STRAIGHT, kickers = [high], hand_cards = sc\<rparr>"
      by (simp add: checkStraight_def)
    from ev royal sf fl st checkFourOfAKind_distinct [OF d] checkFullHouse_distinct [OF d]
    have "evaluateHand cards = \<lparr>hand_rank = STRAIGHT,
        hand_name = HAND_NAMES STRAIGHT, kickers = [high], hand_cards = sc\<rparr>" by simp
    with False show ?thesis by auto
  qed
qed


lemma five_values_distinct:
  assumes "length cards = 5" "card_value ` set cards = {a, b, c, d, e}"
    and "distinct [a, b, c, d, e]"
  shows "distinct (map card_value cards)"
proof -
  have "card (set (map card_value cards)) = 5" using assms(2,3) by simp
  with assms(1) show ?thesis by (intro card_distinct) simp
qed

subsection \<open>The wheel ranks as a five-high straight\<close>

definition wheel_hearts :: "card list" where
  "wheel_hearts = [mkCard ''2'' Hearts 2, mkCard ''3'' Hearts 3, mkCard ''4'' Hearts 4,
                   mkCard ''5'' Hearts 5, mkCard ''A'' Hearts 14]"

lemma evaluateHand_wheel_hearts:
  "evaluateHand wheel_hearts =
     \<lparr>hand_rank = STRAIGHT_FLUSH, hand_name = ''Straight Flush'', kickers = [5],
      hand_cards = map toEvalCard wheel_hearts\<rparr>"
  by (simp add: evaluateHand_def wheel_hearts_def mkCard_def toEvalCard_def sortByRankDesc_def
      checkRoyalFlush_def getFlushCards_def sortDesc_def checkStraightFlush_def
      findStraight_def cardsOfRanks_def List.map_filter_def HAND_NAMES_def HAND_RANKS)

text \<open>
  Claim C3. For every five-card hand whose rank set is \<open>{14, 2, 3, 4, 5}\<close>,
  \<^verbatim>\<open>findStraight\<close> reports a straight with high card 5, and \<^verbatim>\<open>evaluateHand\<close>
  returns a Straight (a Straight Flush when the five cards share a suit) whose only
  kicker is 5; a hand with rank set \<open>{6, 5, 4, 3, 2}\<close> is evaluated likewise with kicker
  6, so the wheel compares below a six-high straight of the same category. In
  particular 2h 3h 4h 5h Ah evaluates to Straight Flush with kicker 5.
\<close>

theorem wheel_straight_is_five_high:
  assumes "length cards = 5" and "card_value ` set cards = {14, 2, 3, 4, 5}"
    and "length six = 5" and "card_value ` set six = {6, 5, 4, 3, 2}"
  shows "(\<exists>sc. findStraight (sortByRankDesc (map toEvalCard cards)) = Some (5, sc))
     \<and> kickers (evaluateHand cards) = [5]
     \<and> hand_rank (evaluateHand cards) =
          (if \<exists>s. \<forall>c\<in>set cards. card_suit c = s then STRAIGHT_FLUSH else STRAIGHT)
     \<and> kickers (evaluateHand six) = [6]
     \<and> hand_rank (evaluateHand six) =
          (if \<exists>s. \<forall>c\<in>set six. card_suit c = s then STRAIGHT_FLUSH else STRAIGHT)
     \<and> (hand_rank (evaluateHand cards) = hand_rank (evaluateHand six) \<longrightarrow>
          compareHands (evaluateHand cards) (evaluateHand six) = - 1)
     \<and> hand_rank (evaluateHand wheel_hearts) = STRAIGHT_FLUSH
     \<and> hand_name (evaluateHand wheel_hearts) = ''Straight Flush''
     \<and> kickers (evaluateHand wheel_hearts) = [5]"
proof -
  have wheel: "\<exists>sc. findStraight cs = Some (5, sc)"
    if "rank ` set cs = card_value ` set cards" for cs
    using that assms(2) by (simp add: findStraight_wheel)
  have sixh: "\<exists>sc. findStraight cs = Some (6, sc)"
    if "rank ` set cs = card_value ` set six" for cs
    using that assms(4) by (simp add: findStraight_six_high)
  have d1: "distinct (map card_value cards)"
    using assms(1,2) by (rule five_values_distinct) simp
  have d2: "distinct (map card_value six)"
    using assms(3,4) by (rule five_values_distinct) simp
  have k1: "13 \<notin> card_value ` set cards" using assms(2) by simp
  have k2: "13 \<notin> card_value ` set six" using assms(4) by simp
  note w = evaluateHand_straight [OF assms(1) d1 k1 wheel]
  note s = evaluateHand_straight [OF assms(3) d2 k2 sixh]
  have fs: "\<exists>sc. findStraight (sortByRankDesc (map toEvalCard cards)) = Some (5, sc)"
    by (rule wheel) (rule evalCards_facts(2))
  have cmp: "compareHands (evaluateHand cards) (evaluateHand six) = - 1"
    if "hand_rank (evaluateHand cards) = hand_rank (evaluateHand six)"
    using that w s by (simp add: compareHands_def compareKickers_eval)
  from fs w s cmp show ?thesis by (simp add: evaluateHand_wheel_hearts)
qed

definition wheel_offsuit :: "card list" where
  "wheel_offsuit = [mkCard ''A'' Clubs 14, mkCard ''2'' Diamonds 2, mkCard ''3'' Hearts 3,
                    mkCard ''4'' Spades 4, mkCard ''5'' Clubs 5]"

definition six_high_offsuit :: "card list" where
  "six_high_offsuit = [mkCard ''2'' Clubs 2, mkCard ''3'' Diamonds 3, mkCard ''4'' Hearts 4,
                       mkCard ''5'' Spades 5, mkCard ''6'' Clubs 6]"

theorem wheel_straight_is_five_high_witness:
  "length wheel_offsuit = 5 \<and> card_value ` set wheel_offsuit = {14, 2, 3, 4, 5}
   \<and> length six_high_offsuit = 5 \<and> card_value ` set six_high_offsuit = {6, 5, 4, 3, 2}
   \<and> hand_rank (evaluateHand wheel_offsuit) = STRAIGHT
   \<and> hand_rank (evaluateHand six_high_offsuit) = STRAIGHT
   \<and> kickers (evaluateHand wheel_offsuit) = [5]
   \<and> compareHands (evaluateHand wheel_offsuit) (evaluateHand six_high_offsuit) = - 1"
proof -
  have h: "length wheel_offsuit = 5" "card_value ` set wheel_offsuit = {14, 2, 3, 4, 5}"
    "length six_high_offsuit = 5" "card_value ` set six_high_offsuit = {6, 5, 4, 3, 2}"
    by (auto simp: wheel_offsuit_def six_high_offsuit_def mkCard_def)
  have m1: "\<not> (\<exists>s. \<forall>c\<in>set wheel_offsuit. card_suit c = s)"
    by (auto simp: wheel_offsuit_def mkCard_def)
  have m2: "\<not> (\<exists>s. \<forall>c\<in>set six_high_offsuit. card_suit c = s)"
    by (auto simp: six_high_offsuit_def mkCard_def)
  from wheel_straight_is_five_high [OF h] m1 m2 h show ?thesis by simp
qed

section \<open>Fewer than five cards\<close>

subsection \<open>Hand strength\<close>

text \<open>The table \<^verbatim>\<open>baseStrength\<close> of \<^verbatim>\<open>getHandStrength\<close>; a rank outside 1 to 10
  looks up \<^verbatim>\<open>undefined\<close>.\<close>

definition baseStrength :: "nat \<Rightarrow> rat option" where
  "baseStrength r =
     (if r = 1 then Some 0 else if r = 2 then Some (2 / 10)
      else if r = 3 then Some (4 / 10) else if r = 4 then Some (55 / 100)
      else if r = 5 then Some (65 / 100) else if r = 6 then Some (72 / 100)
      else if r = 7 then Some (82 / 100) else if r = 8 then Some (91 / 100)
      else if r = 9 then Some (97 / 100) else if r = 10 then Some 1
      else None)"

text \<open>\<^verbatim>\<open>getHandStrength\<close>. Reading \<^verbatim>\<open>hand.rank\<close> of \<^verbatim>\<open>null\<close> would throw; an
  \<^verbatim>\<open>undefined\<close> base strength would make the result \<^verbatim>\<open>NaN\<close>, which the model
  reports as \<open>Inl NotANumber\<close>. Neither happens (see below).\<close>

definition getHandStrength :: "card list \<Rightarrow> card list \<Rightarrow> error + rat" where
  "getHandStrength playerCards communityCards =
     (case getBestFiveCardHand playerCards communityCards of
        Inl e \<Rightarrow> Inl e
      | Inr None \<Rightarrow> Inl TypeError
      | Inr (Some hand) \<Rightarrow>
          (case baseStrength (hand_rank hand) of
             None \<Rightarrow> Inl NotANumber
           | Some base \<Rightarrow>
               (let strength =
                      (if length (kickers hand) > 0
                       then base + of_nat (kickers hand ! 0) / 14 * (5 / 100)
                       else base)
                in Inr (min strength 1))))"

subsection \<open>No flush, straight or full house on fewer than five cards\<close>

lemma two_ranks_count:
  "r \<noteq> r' \<Longrightarrow>
     length (filter (\<lambda>c. rank c = r) cs) + length (filter (\<lambda>c. rank c = r') cs) \<le> length cs"
  by (induction cs) auto

lemma others_count:
  "length (filter (\<lambda>c. rank c \<noteq> r) cs) = length cs - length (filter (\<lambda>c. rank c = r) cs)"
  using sum_length_filter_compl [of "\<lambda>c. rank c = r" cs] by simp

lemma distinct_objectEntries:
  assumes "distinct obj"
  shows "distinct (objectEntries obj)"
  using assms by (auto simp: objectEntries_def)

lemma distinct_rankEntries: "distinct (objectEntries (getRankCounts cs))"
  using distinct_getRankCounts [of cs]
  by (intro distinct_objectEntries) (simp add: distinct_map)

lemma short_no_flush_group:
  assumes "length cs < 5" "(s, g) \<in> set (getFlushCards cs)"
  shows "\<not> 5 \<le> length g"
  using assms group_length_le [of s g cs] by simp

lemma short_checkRoyalFlush: "length cs < 5 \<Longrightarrow> checkRoyalFlush cs = None"
  unfolding checkRoyalFlush_def firstSome_None_iff
  by (auto dest: short_no_flush_group)

lemma short_checkStraightFlush: "length cs < 5 \<Longrightarrow> checkStraightFlush cs = None"
  unfolding checkStraightFlush_def firstSome_None_iff
  by (auto dest: short_no_flush_group)

lemma short_checkFlush: "length cs < 5 \<Longrightarrow> checkFlush cs = None"
  unfolding checkFlush_def firstSome_None_iff
  by (auto dest: short_no_flush_group)

lemma short_findStraight:
  assumes "length cs < 5"
  shows "findStraight cs = None"
proof -
  have le: "length (remdups (map rank cs)) \<le> length cs"
    using length_remdups_leq [of "map rank cs"] by simp
  have "\<not> {14, 5, 4, 3, 2} \<subseteq> rank ` set cs"
  proof
    assume sub: "{14, 5, 4, 3, 2} \<subseteq> rank ` set cs"
    have "card {14, 5, 4, 3, 2 :: nat} \<le> card (rank ` set cs)"
      using sub by (intro card_mono) simp_all
    also have "\<dots> \<le> length cs"
      using card_image_le [of "set cs" rank] card_length [of cs] by simp
    finally show False using assms by simp
  qed
  then have nowheel: "\<not> (14 \<in> rank ` set cs \<and> 5 \<in> rank ` set cs \<and> 4 \<in> rank ` set cs
      \<and> 3 \<in> rank ` set cs \<and> 2 \<in> rank ` set cs)" by simp
  from le assms have "length (remdups (map rank cs)) - 4 = 0" by simp
  with nowheel show ?thesis by (simp add: findStraight_def Let_def)
qed

lemma short_checkStraight: "length cs < 5 \<Longrightarrow> checkStraight cs = None"
  by (simp add: checkStraight_def short_findStraight)

lemma short_checkFullHouse:
  assumes "length cs < 5"
  shows "checkFullHouse cs = None"
proof (rule ccontr)
  assume "checkFullHouse cs \<noteq> None"
  then obtain three pair where
    t: "firstSome (\<lambda>(r, count). if count \<ge> 3 then Some r else None)
          (objectEntries (getRankCounts cs)) = Some three"
    and p: "firstSome (\<lambda>(r, count). if r \<noteq> three \<and> count \<ge> 2 then Some r else None)
          (objectEntries (getRankCounts cs)) = Some pair"
    by (auto simp: checkFullHouse_def Let_def split: option.splits if_splits)
  from t have "3 \<le> length (filter (\<lambda>c. rank c = three) cs)"
    by (auto dest!: firstSome_SomeD simp: in_getRankCounts_iff split: if_splits)
  moreover from p have "pair \<noteq> three \<and> 2 \<le> length (filter (\<lambda>c. rank c = pair) cs)"
    by (auto dest!: firstSome_SomeD simp: in_getRankCounts_iff split: if_splits)
  ultimately show False using two_ranks_count [of three pair cs] assms by simp
qed

lemma checkFourOfAKind_kickers:
  assumes "checkFourOfAKind cs = Some h"
  shows "length (kickers h) \<le> length cs"
proof -
  from assms obtain r n where "(r, n) \<in> set (objectEntries (getRankCounts cs))" "4 \<le> n"
    and h: "length (kickers h) = 2"
    unfolding checkFourOfAKind_def
    by (auto dest!: firstSome_SomeD simp: Let_def split: if_splits)
  then have "4 \<le> length (filter (\<lambda>c. rank c = r) cs)" by (simp add: in_getRankCounts_iff)
  moreover have "length (filter (\<lambda>c. rank c = r) cs) \<le> length cs" by simp
  ultimately show ?thesis using h by linarith
qed

lemma checkThreeOfAKind_kickers:
  assumes "checkThreeOfAKind cs = Some h"
  shows "length (kickers h) \<le> length cs"
proof -
  from assms obtain r n where rn: "(r, n) \<in> set (objectEntries (getRankCounts cs))" "3 \<le> n"
    and h: "kickers h = r # map rank (take 2 (sortByRankDesc (filter (\<lambda>c. rank c \<noteq> r) cs)))"
    unfolding checkThreeOfAKind_def
    by (auto dest!: firstSome_SomeD simp: Let_def split: if_splits)
  from rn have "3 \<le> length (filter (\<lambda>c. rank c = r) cs)" by (simp add: in_getRankCounts_iff)
  moreover have "length (filter (\<lambda>c. rank c = r) cs) \<le> length cs" by simp
  moreover have "length (kickers h) \<le> 1 + (length cs - length (filter (\<lambda>c. rank c = r) cs))"
    using h others_count [of r cs] by simp
  ultimately show ?thesis by linarith
qed

lemma checkPair_kickers:
  assumes "checkPair cs = Some h"
  shows "length (kickers h) \<le> length cs"
proof -
  from assms obtain r n where rn: "(r, n) \<in> set (objectEntries (getRankCounts cs))" "2 \<le> n"
    and h: "kickers h = r # map rank (take 3 (sortByRankDesc (filter (\<lambda>c. rank c \<noteq> r) cs)))"
    unfolding checkPair_def
    by (auto dest!: firstSome_SomeD simp: Let_def split: if_splits)
  from rn have "2 \<le> length (filter (\<lambda>c. rank c = r) cs)" by (simp add: in_getRankCounts_iff)
  moreover have "length (filter (\<lambda>c. rank c = r) cs) \<le> length cs" by simp
  moreover have "length (kickers h) \<le> 1 + (length cs - length (filter (\<lambda>c. rank c = r) cs))"
    using h others_count [of r cs] by simp
  ultimately show ?thesis by linarith
qed

lemma two_in_distinct:
  assumes "distinct xs" "2 \<le> length xs"
  shows "\<exists>x y. x \<in> set xs \<and> y \<in> set xs \<and> x \<noteq> y"
proof -
  from assms(2) obtain x y zs where "xs = x # y # zs"
    by (cases xs; cases "tl xs") auto
  with assms(1) show ?thesis by auto
qed

lemma checkTwoPair_kickers:
  assumes "checkTwoPair cs = Some h"
  shows "length (kickers h) \<le> length cs"
proof -
  let ?ps = "filter (\<lambda>(r, count). count \<ge> 2) (objectEntries (getRankCounts cs))"
  from assms have len: "2 \<le> length ?ps" and h: "length (kickers h) = 3"
    by (auto simp: checkTwoPair_def Let_def split: if_splits)
  have "distinct ?ps" using distinct_rankEntries by simp
  from two_in_distinct [OF this len] obtain x y where
    xy: "x \<in> set ?ps" "y \<in> set ?ps" "x \<noteq> y" by blast
  obtain r n r' n' where x: "x = (r, n)" and y: "y = (r', n')" by (cases x; cases y) auto
  from xy x y have c: "n = length (filter (\<lambda>c. rank c = r) cs)" "2 \<le> n"
      "n' = length (filter (\<lambda>c. rank c = r') cs)" "2 \<le> n'"
    by (auto simp: in_getRankCounts_iff)
  with xy(3) x y have "r \<noteq> r'" by auto
  from two_ranks_count [OF this, of cs] c h show ?thesis by linarith
qed

lemma checkHighCard_kickers: "length (kickers (checkHighCard cs)) \<le> length cs"
  by (simp add: checkHighCard_def Let_def)


subsection \<open>What \<^verbatim>\<open>evaluateHand\<close> returns on a short hand\<close>

lemma evaluateHand_unfold:
  "evaluateHand cards =
      (case firstSome (\<lambda>check. check (sortByRankDesc (map toEvalCard cards)))
             [checkRoyalFlush, checkStraightFlush, checkFourOfAKind, checkFullHouse,
              checkFlush, checkStraight, checkThreeOfAKind, checkTwoPair, checkPair] of
        Some handResult \<Rightarrow> handResult
      | None \<Rightarrow> checkHighCard (sortByRankDesc (map toEvalCard cards)))"
  by (simp only: evaluateHand_def Let_def)

lemma evaluateHand_short:
  assumes "length cards < 5"
  shows "length (kickers (evaluateHand cards)) \<le> length cards
         \<and> hand_rank (evaluateHand cards)
             \<in> {HIGH_CARD, PAIR, TWO_PAIR, THREE_OF_A_KIND, FOUR_OF_A_KIND}"
proof -
  define ec where "ec = sortByRankDesc (map toEvalCard cards)"
  have l: "length ec = length cards" by (simp add: ec_def)
  with assms have s: "length ec < 5" by simp
  note none = short_checkRoyalFlush [OF s] short_checkStraightFlush [OF s]
    short_checkFullHouse [OF s] short_checkFlush [OF s] short_checkStraight [OF s]
  have ev: "evaluateHand cards =
      (case firstSome (\<lambda>check. check ec)
             [checkFourOfAKind, checkThreeOfAKind, checkTwoPair, checkPair] of
        Some handResult \<Rightarrow> handResult
      | None \<Rightarrow> checkHighCard ec)"
    unfolding evaluateHand_unfold ec_def [symmetric] using none
    by (simp split: option.splits)
  show ?thesis
  proof (cases "firstSome (\<lambda>check. check ec)
             [checkFourOfAKind, checkThreeOfAKind, checkTwoPair, checkPair]")
    case None
    with ev l show ?thesis
      using checkHighCard_kickers [of ec] by (simp add: checkHighCard_rank)
  next
    case (Some h)
    then obtain check where
      "check \<in> set [checkFourOfAKind, checkThreeOfAKind, checkTwoPair, checkPair]"
      "check ec = Some h" by (blast dest: firstSome_SomeD)
    then have "length (kickers h) \<le> length ec
       \<and> hand_rank h \<in> {HIGH_CARD, PAIR, TWO_PAIR, THREE_OF_A_KIND, FOUR_OF_A_KIND}"
      by (auto dest: checkFourOfAKind_kickers checkThreeOfAKind_kickers checkTwoPair_kickers
            checkPair_kickers check_ranks)
    with Some ev l show ?thesis by simp
  qed
qed

lemma evaluateHand_two_cards:
  "evaluateHand [c1, c2] =
     (if card_value c1 = card_value c2
      then \<lparr>hand_rank = PAIR, hand_name = ''Pair'', kickers = [card_value c1],
            hand_cards = [toEvalCard c1, toEvalCard c2]\<rparr>
      else \<lparr>hand_rank = HIGH_CARD, hand_name = ''High Card'',
            kickers = [max (card_value c1) (card_value c2), min (card_value c1) (card_value c2)],
            hand_cards = (if card_value c2 \<le> card_value c1
                          then [toEvalCard c1, toEvalCard c2]
                          else [toEvalCard c2, toEvalCard c1])\<rparr>)"
proof -
  define ec where "ec = sortByRankDesc (map toEvalCard [c1, c2])"
  have ecv: "ec = (if card_value c2 \<le> card_value c1 then [toEvalCard c1, toEvalCard c2]
                   else [toEvalCard c2, toEvalCard c1])"
    by (simp add: ec_def sortByRankDesc_def toEvalCard_def)
  have s: "length ec < 5" by (simp add: ec_def)
  note none = short_checkRoyalFlush [OF s] short_checkStraightFlush [OF s]
    short_checkFullHouse [OF s] short_checkFlush [OF s] short_checkStraight [OF s]
  have ev: "evaluateHand [c1, c2] =
      (case firstSome (\<lambda>check. check ec)
             [checkFourOfAKind, checkThreeOfAKind, checkTwoPair, checkPair] of
        Some handResult \<Rightarrow> handResult
      | None \<Rightarrow> checkHighCard ec)"
    unfolding evaluateHand_unfold ec_def [symmetric] using none
    by (simp split: option.splits)
  show ?thesis
  proof (cases "card_value c1 = card_value c2")
    case True
    then have rc: "getRankCounts ec = [(card_value c1, 2)]"
      by (simp add: ecv getRankCounts_def toEvalCard_def)
    have oe: "objectEntries [(card_value c1, 2::nat)] = [(card_value c1, 2)]"
      by (simp add: objectEntries_def)
    have four: "checkFourOfAKind ec = None"
      unfolding checkFourOfAKind_def rc oe by simp
    have three: "checkThreeOfAKind ec = None"
      unfolding checkThreeOfAKind_def rc oe by simp
    have twop: "checkTwoPair ec = None"
      unfolding checkTwoPair_def rc oe by simp
    have pair: "checkPair ec = Some \<lparr>hand_rank = PAIR, hand_name = ''Pair'',
            kickers = [card_value c1], hand_cards = [toEvalCard c1, toEvalCard c2]\<rparr>"
      unfolding checkPair_def rc oe using True
      by (simp add: Let_def ecv toEvalCard_def sortByRankDesc_def HAND_NAMES_def HAND_RANKS)
    from True show ?thesis
      unfolding ev by (simp add: four three twop pair)
  next
    case False
    then have d: "distinct (map rank ec)" by (auto simp: ecv toEvalCard_def)
    have n3: "checkThreeOfAKind ec = None"
      unfolding checkThreeOfAKind_def firstSome_None_iff
      using d by (auto dest: no_counts_above_one)
    have n1: "checkPair ec = None"
      unfolding checkPair_def firstSome_None_iff
      using d by (auto dest: no_counts_above_one)
    have n2: "checkTwoPair ec = None"
    proof -
      have "filter (\<lambda>(r, count). count \<ge> 2) (objectEntries (getRankCounts ec)) = []"
        using d by (auto simp: filter_empty_conv dest: no_counts_above_one)
      then show ?thesis by (simp add: checkTwoPair_def)
    qed
    have hc: "evaluateHand [c1, c2] = checkHighCard ec"
      unfolding ev by (simp add: checkFourOfAKind_distinct [OF d] n3 n2 n1)
    have "sortByRankDesc ec = ec"
      by (auto simp: ecv sortByRankDesc_def toEvalCard_def)
    then have "checkHighCard ec = \<lparr>hand_rank = HIGH_CARD, hand_name = ''High Card'',
            kickers = map rank ec, hand_cards = ec\<rparr>"
      by (simp add: checkHighCard_def Let_def ecv HAND_NAMES_def HAND_RANKS)
    with False hc show ?thesis
      by (auto simp: ecv toEvalCard_def)
  qed
qed


lemma getBestFiveCardHand_total:
  "\<exists>c. getBestFiveCardHand playerCards communityCards = Inr (Some (evaluateHand c))"
proof (cases "length (playerCards @ communityCards) < 5")
  case True
  then show ?thesis by (auto simp: getBestFiveCardHand_def Let_def)
next
  case False
  then have "5 \<le> length (playerCards @ communityCards)" by simp
  from getBestFiveCardHand_maximum [OF this] show ?thesis by blast
qed

lemma baseStrength_defined:
  assumes "r \<in> {1 .. 10}"
  shows "baseStrength r \<noteq> None"
proof -
  from assms have "r = 1 \<or> r = 2 \<or> r = 3 \<or> r = 4 \<or> r = 5 \<or> r = 6 \<or> r = 7 \<or> r = 8
      \<or> r = 9 \<or> r = 10" by (simp only: atLeastAtMost_iff) arith
  then show ?thesis by (elim disjE) (simp_all add: baseStrength_def)
qed

lemma getHandStrength_total: "\<exists>x. getHandStrength playerCards communityCards = Inr x"
proof -
  from getBestFiveCardHand_total obtain c where
    c: "getBestFiveCardHand playerCards communityCards = Inr (Some (evaluateHand c))" by blast
  from baseStrength_defined [OF evaluateHand_rank_cases] obtain b where
    "baseStrength (hand_rank (evaluateHand c)) = Some b" by fastforce
  with c show ?thesis by (simp add: getHandStrength_def Let_def)
qed

text \<open>
  Claim C10. \<^verbatim>\<open>evaluateHand\<close> and \<^verbatim>\<open>getBestFiveCardHand\<close> return a hand result on
  every card list (the category is between 1 and 10, no error and no \<^verbatim>\<open>null\<close>), and
  \<^verbatim>\<open>getHandStrength\<close> returns a number. With fewer than five cards in total the cards
  are evaluated directly: the result is \<^verbatim>\<open>evaluateHand\<close> of all the cards, its category
  is High Card, Pair, Two Pair, Three of a Kind or Four of a Kind, and its kicker sequence
  has at most as many entries as there are cards. In particular, before the flop the
  two hole cards with an empty community list give a Pair with the single kicker of the
  pair rank, or a High Card with the two ranks in descending order, and the hand
  strength is computed from that hand.
\<close>

theorem short_hands_are_evaluated_directly:
  "hand_rank (evaluateHand cards) \<in> {1 .. 10}
   \<and> (\<exists>h. getBestFiveCardHand playerCards communityCards = Inr (Some h))
   \<and> (\<exists>x. getHandStrength playerCards communityCards = Inr x)
   \<and> (length (playerCards @ communityCards) < 5 \<longrightarrow>
        getBestFiveCardHand playerCards communityCards
          = Inr (Some (evaluateHand (playerCards @ communityCards)))
        \<and> length (kickers (evaluateHand (playerCards @ communityCards)))
            \<le> length (playerCards @ communityCards)
        \<and> hand_rank (evaluateHand (playerCards @ communityCards))
            \<in> {HIGH_CARD, PAIR, TWO_PAIR, THREE_OF_A_KIND, FOUR_OF_A_KIND})
   \<and> getBestFiveCardHand [c1, c2] [] = Inr (Some (evaluateHand [c1, c2]))
   \<and> hand_rank (evaluateHand [c1, c2])
        = (if card_value c1 = card_value c2 then PAIR else HIGH_CARD)
   \<and> kickers (evaluateHand [c1, c2])
        = (if card_value c1 = card_value c2 then [card_value c1]
           else [max (card_value c1) (card_value c2), min (card_value c1) (card_value c2)])
   \<and> getHandStrength [c1, c2] []
        = Inr (if card_value c1 = card_value c2
               then min (2 / 10 + of_nat (card_value c1) / 14 * (5 / 100)) 1
               else min (of_nat (max (card_value c1) (card_value c2)) / 14 * (5 / 100)) 1)"
proof -
  have direct: "getBestFiveCardHand p c = Inr (Some (evaluateHand (p @ c)))"
    if "length (p @ c) < 5" for p c
    using that by (simp add: getBestFiveCardHand_def Let_def)
  have two: "getBestFiveCardHand [c1, c2] [] = Inr (Some (evaluateHand [c1, c2]))"
    using direct [of "[c1, c2]" "[]"] by simp
  have str: "getHandStrength [c1, c2] []
        = Inr (if card_value c1 = card_value c2
               then min (2 / 10 + of_nat (card_value c1) / 14 * (5 / 100)) 1
               else min (of_nat (max (card_value c1) (card_value c2)) / 14 * (5 / 100)) 1)"
    unfolding getHandStrength_def two
    by (simp add: evaluateHand_two_cards baseStrength_def HAND_RANKS Let_def)
  from getBestFiveCardHand_total [of playerCards communityCards]
  have tot: "\<exists>h. getBestFiveCardHand playerCards communityCards = Inr (Some h)" by blast
  show ?thesis
    using evaluateHand_rank_cases [of cards] tot
      getHandStrength_total [of playerCards communityCards]
      direct [of playerCards communityCards]
      evaluateHand_short [of "playerCards @ communityCards"] two str
    by (simp add: evaluateHand_two_cards)
qed

text \<open>Before the flop with A-K of spades: High Card with kickers 14, 13.\<close>

theorem short_hands_are_evaluated_directly_witness:
  "length ([mkCard ''A'' Spades 14, mkCard ''K'' Spades 13] @ []) < 5
   \<and> getBestFiveCardHand [mkCard ''A'' Spades 14, mkCard ''K'' Spades 13] []
        = Inr (Some (evaluateHand [mkCard ''A'' Spades 14, mkCard ''K'' Spades 13]))
   \<and> hand_rank (evaluateHand [mkCard ''A'' Spades 14, mkCard ''K'' Spades 13]) = HIGH_CARD
   \<and> kickers (evaluateHand [mkCard ''A'' Spades 14, mkCard ''K'' Spades 13]) = [14, 13]
   \<and> getHandStrength [mkCard ''A'' Spades 14, mkCard ''K'' Spades 13] [] = Inr (1 / 20)"
  using short_hands_are_evaluated_directly
    [of "[]" "[mkCard ''A'' Spades 14, mkCard ''K'' Spades 13]" "[]"
        "mkCard ''A'' Spades 14" "mkCard ''K'' Spades 13"]
  by (simp add: mkCard_def)

section \<open>The game state machine\<close>

subsection \<open>State\<close>

text \<open>The five personalities of \<^verbatim>\<open>PokerAI.PERSONALITIES\<close>; \<^verbatim>\<open>setupPlayers\<close> gives
  the two agent seats \<^verbatim>\<open>tight\<close> and \<^verbatim>\<open>aggressive\<close>.\<close>

datatype personalityName = Tight | Loose | Aggressive | Passive | Maniac

text \<open>A seat of \<^verbatim>\<open>this.players\<close>. Chip amounts are JavaScript numbers; they start as
  integers and stay so under the actions of the human seat, while the raise sizes
  computed by the decision agent are fractional, so the model takes them in the
  rationals. The display field \<^verbatim>\<open>position\<close> and the cached \<^verbatim>\<open>aiEngine\<close> are
  not modelled.\<close>

record player =
  player_id :: nat
  name :: string
  chips :: rat
  cards :: "card list"
  currentBet :: rat
  totalInvested :: rat
  isAI :: bool
  isActive :: bool
  isAllIn :: bool
  isFolded :: bool
  personality :: "personalityName option"

datatype phase = Preflop | Flop | Turn | River | Showdown

record playerStats =
  handsWon :: nat
  totalWinnings :: rat
  biggestPot :: rat

text \<open>The fields of \<^verbatim>\<open>PokerEngine\<close> that the game logic reads or writes. The
  settings and user-interface fields (\<^verbatim>\<open>aiEnabled\<close>, \<^verbatim>\<open>aiThinkingTime\<close>,
  \<^verbatim>\<open>selectedCards\<close>, ...) and the never-used \<^verbatim>\<open>sidePots\<close> and
  \<^verbatim>\<open>bettingRound\<close> are left out.\<close>

record engine =
  deck :: "card list"
  communityCards :: "card list"
  players :: "player list"
  currentPlayerIndex :: nat
  dealerPosition :: nat
  blinds_small :: rat
  blinds_big :: rat
  pot :: rat
  gamePhase :: phase
  gameStarted :: bool
  handNumber :: nat
  stats :: playerStats

subsection \<open>Dealing\<close>

text \<open>\<^verbatim>\<open>dealCard\<close>: on an empty deck it logs an error with \<^verbatim>\<open>console.error\<close> and
  returns \<^verbatim>\<open>null\<close>; otherwise \<^verbatim>\<open>this.deck.pop()\<close> removes and returns the last
  element of the array. Nothing in it throws, so the outcome is always \<open>Inr\<close>.\<close>

definition dealCard :: "engine \<Rightarrow> error + (card option \<times> engine)" where
  "dealCard s =
     (if length (deck s) = 0 then Inr (None, s)
      else Inr (Some (last (deck s)), s\<lparr>deck := butlast (deck s)\<rparr>))"

text \<open>\<^verbatim>\<open>dealPocketCards\<close>: two passes over the seats, one card for every active seat
  in each pass; a \<^verbatim>\<open>null\<close> card is skipped by the guard \<^verbatim>\<open>if (card)\<close>.\<close>

definition giveCard :: "nat \<Rightarrow> engine \<Rightarrow> error + engine" where
  "giveCard i s =
     (if isActive (players s ! i) then
        (case dealCard s of
           Inl e \<Rightarrow> Inl e
         | Inr (None, s') \<Rightarrow> Inr s'
         | Inr (Some dealt, s') \<Rightarrow>
             Inr (s'\<lparr>players := (players s')[i := (players s' ! i)
                        \<lparr>cards := cards (players s' ! i) @ [dealt]\<rparr>]\<rparr>))
      else Inr s)"

fun dealRound :: "nat list \<Rightarrow> engine \<Rightarrow> error + engine" where
  "dealRound [] s = Inr s"
| "dealRound (i # seats) s =
     (case giveCard i s of Inl e \<Rightarrow> Inl e | Inr s' \<Rightarrow> dealRound seats s')"

definition dealPocketCards :: "engine \<Rightarrow> error + engine" where
  "dealPocketCards s =
     (case dealRound [0 ..< length (players s)] s of
        Inl e \<Rightarrow> Inl e
      | Inr s' \<Rightarrow> dealRound [0 ..< length (players s')] s')"

subsection \<open>Blinds\<close>

text \<open>The body shared by the small-blind and big-blind blocks of \<^verbatim>\<open>postBlinds\<close>:
  the amount is \<^verbatim>\<open>Math.min(blind, player.chips)\<close>; it leaves the stack, is
  \<^emph>\<open>assigned\<close> to \<^verbatim>\<open>currentBet\<close> and \<^verbatim>\<open>totalInvested\<close> and added to the pot. The
  all-in flag is not touched.\<close>

definition postBlind :: "nat \<Rightarrow> rat \<Rightarrow> engine \<Rightarrow> engine" where
  "postBlind i blind s =
     (let blindPlayer = players s ! i in
      if isActive blindPlayer then
        (let amount = min blind (chips blindPlayer) in
         s\<lparr>players := (players s)[i := blindPlayer
               \<lparr>chips := chips blindPlayer - amount, currentBet := amount,
                totalInvested := amount\<rparr>],
           pot := pot s + amount\<rparr>)
      else s)"

text \<open>\<^verbatim>\<open>postBlinds\<close>: with fewer than two active seats it logs an error and returns
  without any change.\<close>

definition postBlinds :: "engine \<Rightarrow> engine" where
  "postBlinds s =
     (let activePlayers = filter isActive (players s) in
      if length activePlayers < 2 then s
      else
        (let sbIndex = (dealerPosition s + 1) mod length (players s);
             s1 = postBlind sbIndex (blinds_small s) s;
             bbIndex = (dealerPosition s + 2) mod length (players s);
             s2 = postBlind bbIndex (blinds_big s) s1
         in s2\<lparr>currentPlayerIndex := (dealerPosition s + 3) mod length (players s)\<rparr>))"

subsection \<open>Bets\<close>

text \<open>\<^verbatim>\<open>getCurrentBet\<close> is \<^verbatim>\<open>Math.max(...)\<close> of the seats' current bets; with no
  seat at all \<^verbatim>\<open>Math.max()\<close> is \<open>-Infinity\<close>, which is \<open>None\<close> here.\<close>

definition getCurrentBet :: "engine \<Rightarrow> rat option" where
  "getCurrentBet s =
     (case map currentBet (players s) of
        [] \<Rightarrow> None
      | b # bs \<Rightarrow> Some (fold max bs b))"

text \<open>\<^verbatim>\<open>isBettingRoundComplete\<close>. Against \<open>-Infinity\<close> no bet compares equal.\<close>

definition isBettingRoundComplete :: "engine \<Rightarrow> bool" where
  "isBettingRoundComplete s =
     (let activePlayers = filter (\<lambda>p. isActive p \<and> \<not> isFolded p) (players s) in
      if length activePlayers \<le> 1 then True
      else (case getCurrentBet s of
              None \<Rightarrow> list_all (\<lambda>p. isAllIn p) activePlayers
            | Some bet \<Rightarrow> list_all (\<lambda>p. currentBet p = bet \<or> isAllIn p) activePlayers))"

datatype action = Fold | Check | Call | Raise

text \<open>The \<^verbatim>\<open>switch\<close> of \<^verbatim>\<open>executePlayerAction\<close> for the seat with index \<open>i\<close>. A
  player that is not a seat of the table is \<^verbatim>\<open>undefined\<close>, and the first line
  (\<^verbatim>\<open>player.name\<close>) throws. With seat \<open>i\<close> present the list of seats is not empty and
  \<^verbatim>\<open>getCurrentBet\<close> is a number, so the branch for \<open>None\<close> is never taken.\<close>

definition commit :: "nat \<Rightarrow> rat \<Rightarrow> engine \<Rightarrow> engine" where
  "commit i amount s =
     (let p = players s ! i;
          p' = p\<lparr>chips := chips p - amount, currentBet := currentBet p + amount,
                 totalInvested := totalInvested p + amount\<rparr>;
          p'' = (if chips p' = 0 then p'\<lparr>isAllIn := True\<rparr> else p')
      in s\<lparr>players := (players s)[i := p''], pot := pot s + amount\<rparr>)"

definition applyAction :: "engine \<Rightarrow> nat \<Rightarrow> action \<Rightarrow> rat \<Rightarrow> error + engine" where
  "applyAction s i act amount =
     (if \<not> i < length (players s) then Inl TypeError
      else
        (let p = players s ! i in
         case act of
           Fold \<Rightarrow> Inr (s\<lparr>players := (players s)[i := p\<lparr>isFolded := True\<rparr>]\<rparr>)
         | Check \<Rightarrow> Inr s
         | Call \<Rightarrow>
             (case getCurrentBet s of
                None \<Rightarrow> Inl NotANumber
              | Some bet \<Rightarrow>
                  (let callAmount = bet - currentBet p;
                       actualCall = min callAmount (chips p)
                   in Inr (commit i actualCall s)))
         | Raise \<Rightarrow>
             (case getCurrentBet s of
                None \<Rightarrow> Inl NotANumber
              | Some bet \<Rightarrow>
                  (let raiseCallAmount = bet - currentBet p;
                       totalRaise = raiseCallAmount + amount;
                       actualRaise = min totalRaise (chips p)
                   in Inr (commit i actualRaise s)))))"

subsection \<open>Showdown\<close>

text \<open>\<^verbatim>\<open>awardPot(winner)\<close> for the seat with index \<open>i\<close>.\<close>

definition awardPot :: "nat \<Rightarrow> engine \<Rightarrow> engine" where
  "awardPot i s =
     (let winner = players s ! i;
          s1 = s\<lparr>players := (players s)[i := winner\<lparr>chips := chips winner + pot s\<rparr>]\<rparr>;
          s2 = (if \<not> isAI winner
                then s1\<lparr>stats := \<lparr>handsWon = handsWon (stats s) + 1,
                                  totalWinnings = totalWinnings (stats s) + pot s,
                                  biggestPot = max (biggestPot (stats s)) (pot s)\<rparr>\<rparr>
                else s1)
      in s2\<lparr>pot := 0\<rparr>)"

text \<open>\<^verbatim>\<open>playerHands.sort((a, b) => compareHands(b.hand, a.hand))\<close>: a stable sort,
  best hand first. An entry is a seat index with its hand.\<close>

fun insertByHand :: "nat \<times> HandResult \<Rightarrow> (nat \<times> HandResult) list \<Rightarrow> (nat \<times> HandResult) list"
  where
  "insertByHand a [] = [a]"
| "insertByHand a (b # bs) =
     (if compareHands (snd b) (snd a) > 0 then b # insertByHand a bs else a # b # bs)"

definition sortByHand :: "(nat \<times> HandResult) list \<Rightarrow> (nat \<times> HandResult) list" where
  "sortByHand playerHands = foldr insertByHand playerHands []"

text \<open>The hands of the contenders; an exception of the evaluator propagates and a
  \<^verbatim>\<open>null\<close> hand makes the first comparison throw.\<close>

fun handsOf :: "engine \<Rightarrow> nat list \<Rightarrow> error + (nat \<times> HandResult) list" where
  "handsOf s [] = Inr []"
| "handsOf s (i # seats) =
     (case getBestFiveCardHand (cards (players s ! i)) (communityCards s) of
        Inl e \<Rightarrow> Inl e
      | Inr None \<Rightarrow> Inl TypeError
      | Inr (Some hand) \<Rightarrow>
          (case handsOf s seats of Inl e \<Rightarrow> Inl e | Inr hs \<Rightarrow> Inr ((i, hand) # hs)))"

text \<open>The split branch: \<^verbatim>\<open>winner.player.chips += splitAmount\<close> for every winner.\<close>

fun payWinners :: "rat \<Rightarrow> nat list \<Rightarrow> player list \<Rightarrow> player list" where
  "payWinners splitAmount [] ps = ps"
| "payWinners splitAmount (i # winners) ps =
     payWinners splitAmount winners (ps[i := (ps ! i)\<lparr>chips := chips (ps ! i) + splitAmount\<rparr>])"

text \<open>\<^verbatim>\<open>evaluateWinner(players)\<close> for the seats \<open>seats\<close>. With no contender
  \<^verbatim>\<open>playerHands[0]\<close> is \<^verbatim>\<open>undefined\<close> and reading its \<^verbatim>\<open>hand\<close> throws.\<close>

definition evaluateWinner :: "nat list \<Rightarrow> engine \<Rightarrow> error + engine" where
  "evaluateWinner seats s =
     (case handsOf s seats of
        Inl e \<Rightarrow> Inl e
      | Inr playerHands \<Rightarrow>
          (case sortByHand playerHands of
             [] \<Rightarrow> Inl TypeError
           | best # rest \<Rightarrow>
               (let bestHand = snd best;
                    winners = filter (\<lambda>ph. compareHands (snd ph) bestHand = 0) (best # rest)
                in if length winners = 1 then Inr (awardPot (fst (hd winners)) s)
                   else
                     (let splitAmount = of_int \<lfloor>pot s / of_nat (length winners)\<rfloor>
                      in Inr (s\<lparr>players := payWinners splitAmount (map fst winners) (players s),
                                pot := 0\<rparr>)))))"

text \<open>The seats still contesting the pot: \<^verbatim>\<open>p.isActive && !p.isFolded\<close>.\<close>

definition contenders :: "engine \<Rightarrow> nat list" where
  "contenders s =
     filter (\<lambda>i. isActive (players s ! i) \<and> \<not> isFolded (players s ! i))
       [0 ..< length (players s)]"

definition showdown :: "engine \<Rightarrow> error + engine" where
  "showdown s =
     (let s1 = s\<lparr>gamePhase := Showdown\<rparr>;
          activePlayers = contenders s1
      in case (if length activePlayers = 1 then Inr (awardPot (hd activePlayers) s1)
               else evaluateWinner activePlayers s1) of
           Inl e \<Rightarrow> Inl e
         | Inr s2 \<Rightarrow> Inr (s2\<lparr>gameStarted := False\<rparr>))"

subsection \<open>Community cards\<close>

text \<open>One community card: \<^verbatim>\<open>this.communityCards.push(this.dealCard())\<close>. A
  \<^verbatim>\<open>null\<close> card is dereferenced by the log line of the dealing function, by the
  rendering or at the latest by the evaluator at showdown; the model lets the
  \<^verbatim>\<open>TypeError\<close> surface at once.\<close>

definition pushCommunityCard :: "engine \<Rightarrow> error + engine" where
  "pushCommunityCard s =
     (case dealCard s of
        Inl e \<Rightarrow> Inl e
      | Inr (None, s') \<Rightarrow> Inl TypeError
      | Inr (Some dealt, s') \<Rightarrow> Inr (s'\<lparr>communityCards := communityCards s' @ [dealt]\<rparr>))"

text \<open>The burn card, \<^verbatim>\<open>this.dealCard()\<close> with the result dropped.\<close>

definition burnCard :: "engine \<Rightarrow> error + engine" where
  "burnCard s = (case dealCard s of Inl e \<Rightarrow> Inl e | Inr (burnt, s') \<Rightarrow> Inr s')"

definition andThen :: "error + 'a \<Rightarrow> ('a \<Rightarrow> error + 'b) \<Rightarrow> error + 'b" where
  "andThen r f = (case r of Inl e \<Rightarrow> Inl e | Inr x \<Rightarrow> f x)"

definition dealFlop :: "engine \<Rightarrow> error + engine" where
  "dealFlop s =
     andThen (burnCard s) (\<lambda>s1.
     andThen (pushCommunityCard s1) (\<lambda>s2.
     andThen (pushCommunityCard s2) (\<lambda>s3.
     pushCommunityCard s3)))"

text \<open>\<^verbatim>\<open>dealTurn\<close> and \<^verbatim>\<open>dealRiver\<close> log \<^verbatim>\<open>communityCards[3].unicode\<close> and
  \<^verbatim>\<open>communityCards[4].unicode\<close>, which throws when the array is shorter.\<close>

definition dealTurn :: "engine \<Rightarrow> error + engine" where
  "dealTurn s =
     andThen (burnCard s) (\<lambda>s1.
     andThen (pushCommunityCard s1) (\<lambda>s2.
     if 3 < length (communityCards s2) then Inr s2 else Inl TypeError))"

definition dealRiver :: "engine \<Rightarrow> error + engine" where
  "dealRiver s =
     andThen (burnCard s) (\<lambda>s1.
     andThen (pushCommunityCard s1) (\<lambda>s2.
     if 4 < length (communityCards s2) then Inr s2 else Inl TypeError))"

subsection \<open>Turn order and phases\<close>

text \<open>The \<^verbatim>\<open>do ... while\<close> loop of \<^verbatim>\<open>moveToNextPlayer\<close>: advance the index
  (modulo the number of seats) until it names an active seat that has not folded. It
  does not end when there is no such seat, hence a partial function; with no seat at
  all the index is \<^verbatim>\<open>NaN\<close> and reading the seat's flag throws.\<close>

partial_function (option) nextPlayerFrom :: "engine \<Rightarrow> nat \<Rightarrow> (error + nat) option" where
  "nextPlayerFrom s idx =
     (if length (players s) = 0 then Some (Inl TypeError)
      else
        (let idx' = (idx + 1) mod length (players s) in
         if \<not> isActive (players s ! idx') \<or> isFolded (players s ! idx')
         then nextPlayerFrom s idx'
         else Some (Inr idx')))"

text \<open>The synchronous control flow that follows an action or the start of a hand:
  \<^verbatim>\<open>moveToNextPlayer\<close>, \<^verbatim>\<open>processNextPlayer\<close>, \<^verbatim>\<open>completeBettingRound\<close>,
  \<^verbatim>\<open>advanceGamePhase\<close> and \<^verbatim>\<open>startBettingRound\<close> call one another until a seat has
  to decide (the agent's timer is set or the human controls are enabled) or the showdown
  is over. The five functions are one partial function with the callee as first
  argument. In phase \<^verbatim>\<open>showdown\<close> the \<^verbatim>\<open>switch\<close> of \<^verbatim>\<open>advanceGamePhase\<close> has no
  case and falls through to \<^verbatim>\<open>startBettingRound\<close>. An index that names no seat
  (also \<^verbatim>\<open>NaN\<close>, from a remainder by zero seats; here \<open>n mod 0 = n\<close>) reads
  \<^verbatim>\<open>undefined\<close>.\<close>

datatype callee =
  MoveToNextPlayer | ProcessNextPlayer | CompleteBettingRound | AdvanceGamePhase
  | StartBettingRound

partial_function (option) schedule :: "callee \<Rightarrow> engine \<Rightarrow> (error + engine) option" where
  "schedule f s =
     (case f of
        MoveToNextPlayer \<Rightarrow>
          (if isBettingRoundComplete s then schedule CompleteBettingRound s
           else (case nextPlayerFrom s (currentPlayerIndex s) of
                   None \<Rightarrow> None
                 | Some (Inl e) \<Rightarrow> Some (Inl e)
                 | Some (Inr i) \<Rightarrow> schedule ProcessNextPlayer (s\<lparr>currentPlayerIndex := i\<rparr>)))
      | ProcessNextPlayer \<Rightarrow>
          (if \<not> currentPlayerIndex s < length (players s)
              \<or> \<not> isActive (players s ! currentPlayerIndex s)
              \<or> isFolded (players s ! currentPlayerIndex s)
           then schedule MoveToNextPlayer s
           else Some (Inr s))
      | CompleteBettingRound \<Rightarrow>
          schedule AdvanceGamePhase
            (s\<lparr>players := map (\<lambda>p. p\<lparr>currentBet := 0\<rparr>) (players s)\<rparr>)
      | AdvanceGamePhase \<Rightarrow>
          (case gamePhase s of
             Preflop \<Rightarrow>
               (case dealFlop s of
                  Inl e \<Rightarrow> Some (Inl e)
                | Inr s' \<Rightarrow> schedule StartBettingRound (s'\<lparr>gamePhase := Flop\<rparr>))
           | Flop \<Rightarrow>
               (case dealTurn s of
                  Inl e \<Rightarrow> Some (Inl e)
                | Inr s' \<Rightarrow> schedule StartBettingRound (s'\<lparr>gamePhase := Turn\<rparr>))
           | Turn \<Rightarrow>
               (case dealRiver s of
                  Inl e \<Rightarrow> Some (Inl e)
                | Inr s' \<Rightarrow> schedule StartBettingRound (s'\<lparr>gamePhase := River\<rparr>))
           | River \<Rightarrow> Some (showdown s)
           | Showdown \<Rightarrow> schedule StartBettingRound s)
      | StartBettingRound \<Rightarrow>
          schedule ProcessNextPlayer
            (s\<lparr>currentPlayerIndex :=
                 (if gamePhase s = Preflop
                  then (dealerPosition s + 3) mod length (players s)
                  else (dealerPosition s + 1) mod length (players s))\<rparr>))"

text \<open>\<^verbatim>\<open>executePlayerAction\<close>: the \<^verbatim>\<open>switch\<close>, then \<^verbatim>\<open>moveToNextPlayer\<close>. The
  result \<open>None\<close> stands for a call that does not return.\<close>

definition executePlayerAction ::
  "engine \<Rightarrow> nat \<Rightarrow> action \<Rightarrow> rat \<Rightarrow> (error + engine) option" where
  "executePlayerAction s i act amount =
     (case applyAction s i act amount of
        Inl e \<Rightarrow> Some (Inl e)
      | Inr s' \<Rightarrow> schedule MoveToNextPlayer s')"

subsection \<open>Starting a hand\<close>

text \<open>\<^verbatim>\<open>createDeck\<close>: suits in the order hearts, diamonds, clubs, spades, ranks from 2
  to the ace.\<close>

definition createDeck :: "card list" where
  "createDeck =
     concat (map (\<lambda>s. map (\<lambda>(r, v). \<lparr>card_rank = r, card_suit = s, card_value = v\<rparr>)
                    [(''2'', 2), (''3'', 3), (''4'', 4), (''5'', 5), (''6'', 6), (''7'', 7),
                     (''8'', 8), (''9'', 9), (''10'', 10), (''J'', 11), (''Q'', 12),
                     (''K'', 13), (''A'', 14)])
               [Hearts, Diamonds, Clubs, Spades])"

text \<open>\<^verbatim>\<open>startNewHand\<close>. \<^verbatim>\<open>createDeck\<close> followed by \<^verbatim>\<open>shuffleDeck\<close> leaves some
  permutation of the 52 cards, chosen by \<^verbatim>\<open>Math.random\<close>; the model takes that
  permutation as the argument \<open>shuffled\<close>.\<close>

definition resetPlayer :: "player \<Rightarrow> player" where
  "resetPlayer p =
     p\<lparr>cards := [], currentBet := 0, totalInvested := 0, isFolded := False,
       isAllIn := False, isActive := (chips p > 0)\<rparr>"

definition startNewHand :: "card list \<Rightarrow> engine \<Rightarrow> (error + engine) option" where
  "startNewHand shuffled s =
     (let s1 = s\<lparr>deck := shuffled, communityCards := [], pot := 0, gamePhase := Preflop,
                 handNumber := handNumber s + 1, players := map resetPlayer (players s)\<rparr>;
          s2 = postBlinds s1
      in case dealPocketCards s2 of
           Inl e \<Rightarrow> Some (Inl e)
         | Inr s3 \<Rightarrow> schedule StartBettingRound (s3\<lparr>gameStarted := True\<rparr>))"

text \<open>The table that the constructor and \<^verbatim>\<open>setupPlayers\<close> build: the human seat and
  two agent seats with 1000 chips each, blinds 5 and 10, dealer seat 0.\<close>

definition newPlayer :: "nat \<Rightarrow> string \<Rightarrow> bool \<Rightarrow> personalityName option \<Rightarrow> player" where
  "newPlayer i n ai pers =
     \<lparr>player_id = i, name = n, chips = 1000, cards = [], currentBet = 0, totalInvested = 0,
      isAI = ai, isActive = True, isAllIn = False, isFolded = False, personality = pers\<rparr>"

definition setupPlayers :: "player list" where
  "setupPlayers =
     [newPlayer 0 ''You'' False None,
      newPlayer 1 ''AI Bot 1'' True (Some Tight),
      newPlayer 2 ''AI Bot 2'' True (Some Aggressive)]"

definition newEngine :: engine where
  "newEngine =
     \<lparr>deck = createDeck, communityCards = [], players = setupPlayers,
      currentPlayerIndex = 0, dealerPosition = 0, blinds_small = 5, blinds_big = 10,
      pot = 0, gamePhase = Preflop, gameStarted = False, handNumber = 0,
      stats = \<lparr>handsWon = 0, totalWinnings = 0, biggestPot = 0\<rparr>\<rparr>"

section \<open>Properties of the state machine\<close>

subsection \<open>Drawing a card\<close>

definition emptyDeckEngine :: engine where
  "emptyDeckEngine = newEngine\<lparr>deck := []\<rparr>"

text \<open>
  Claim C9 as stated fails: on the empty deck \<^verbatim>\<open>dealCard\<close> does not fail, it
  completes normally and returns \<^verbatim>\<open>null\<close>.
\<close>

theorem dealCard_empty_deck_returns_null:
  "dealCard emptyDeckEngine = Inr (None, emptyDeckEngine) \<and> \<not> isl (dealCard emptyDeckEngine)"
  by (simp add: dealCard_def emptyDeckEngine_def)

text \<open>
  Claim C9, amended. Drawing from an empty deck logs an error and returns \<^verbatim>\<open>null\<close>
  without raising, and leaves the state as it is; drawing from a non-empty deck removes
  the top card (the last element of the array) and returns it.
\<close>

theorem dealCard_null_or_top_card:
  "(deck s = [] \<longrightarrow> dealCard s = Inr (None, s))
   \<and> (deck s \<noteq> [] \<longrightarrow>
        (\<exists>top rest. deck s = rest @ [top]
           \<and> dealCard s = Inr (Some top, s\<lparr>deck := rest\<rparr>)))"
proof (intro conjI impI)
  assume "deck s = []"
  then show "dealCard s = Inr (None, s)" by (simp add: dealCard_def)
next
  assume ne: "deck s \<noteq> []"
  then have "deck s = butlast (deck s) @ [last (deck s)]" by simp
  moreover from ne have "dealCard s = Inr (Some (last (deck s)), s\<lparr>deck := butlast (deck s)\<rparr>)"
    by (simp add: dealCard_def)
  ultimately show "\<exists>top rest. deck s = rest @ [top]
           \<and> dealCard s = Inr (Some top, s\<lparr>deck := rest\<rparr>)" by blast
qed

theorem dealCard_null_or_top_card_witness:
  "deck emptyDeckEngine = [] \<and> dealCard emptyDeckEngine = Inr (None, emptyDeckEngine)
   \<and> deck newEngine \<noteq> []
   \<and> (\<exists>rest. dealCard newEngine = Inr (Some (mkCard ''A'' Spades 14), newEngine\<lparr>deck := rest\<rparr>)
         \<and> length rest = 51)"
proof -
  have e: "deck emptyDeckEngine = []" by (simp add: emptyDeckEngine_def)
  have n: "deck newEngine \<noteq> []" by (simp add: newEngine_def createDeck_def)
  from dealCard_null_or_top_card [of newEngine] n obtain top rest where
    tr: "deck newEngine = rest @ [top]" "dealCard newEngine = Inr (Some top, newEngine\<lparr>deck := rest\<rparr>)"
    by blast
  have "last (deck newEngine) = mkCard ''A'' Spades 14" "length (deck newEngine) = 52"
    by (simp_all add: newEngine_def createDeck_def mkCard_def)
  with tr(1) have "top = mkCard ''A'' Spades 14" "length rest = 51" by simp_all
  with tr(2) have "\<exists>rest. dealCard newEngine
      = Inr (Some (mkCard ''A'' Spades 14), newEngine\<lparr>deck := rest\<rparr>) \<and> length rest = 51"
    by blast
  with e n dealCard_null_or_top_card [of emptyDeckEngine] show ?thesis by simp
qed


subsection \<open>Completion of a betting round\<close>

lemma fold_max_Max: "fold max bs (b::rat) = Max (set (b # bs))"
  by (rule Max.set_eq_fold [symmetric])

lemma getCurrentBet_Max:
  "players s \<noteq> [] \<Longrightarrow> getCurrentBet s = Some (Max (currentBet ` set (players s)))"
proof -
  assume "players s \<noteq> []"
  then obtain p ps where ps: "players s = p # ps" by (cases "players s") auto
  have "fold max (map currentBet ps) (currentBet p) = Max (set (currentBet p # map currentBet ps))"
    by (rule fold_max_Max)
  with ps show ?thesis by (simp add: getCurrentBet_def)
qed

text \<open>
  Claim C6. The betting round is complete exactly when at most one active seat that
  has not folded remains, or every such seat has a current bet equal to the largest
  current bet at the table or is all-in.
\<close>

theorem isBettingRoundComplete_iff:
  "isBettingRoundComplete s \<longleftrightarrow>
     card {i. i < length (players s) \<and> isActive (players s ! i) \<and> \<not> isFolded (players s ! i)}
       \<le> 1
     \<or> (\<forall>p\<in>set (players s). isActive p \<and> \<not> isFolded p \<longrightarrow>
           currentBet p = Max (currentBet ` set (players s)) \<or> isAllIn p)"
proof -
  let ?P = "\<lambda>p. isActive p \<and> \<not> isFolded p"
  have cnt: "length (filter ?P (players s))
      = card {i. i < length (players s) \<and> ?P (players s ! i)}"
    by (rule length_filter_conv_card)
  show ?thesis
  proof (cases "length (filter ?P (players s)) \<le> 1")
    case True
    then show ?thesis using cnt by (simp add: isBettingRoundComplete_def)
  next
    case False
    then have "players s \<noteq> []" by auto
    from getCurrentBet_Max [OF this] False cnt show ?thesis
      by (auto simp: isBettingRoundComplete_def Let_def list_all_iff)
  qed
qed


text \<open>After the blinds the small blind still owes five chips; once the human seat has
  called and the small blind has folded the two remaining bets match.\<close>

definition betsOpen :: engine where
  "betsOpen = newEngine\<lparr>players :=
      [setupPlayers ! 0,
       (setupPlayers ! 1)\<lparr>chips := 995, currentBet := 5\<rparr>,
       (setupPlayers ! 2)\<lparr>chips := 990, currentBet := 10\<rparr>], pot := 15\<rparr>"

definition betsMatched :: engine where
  "betsMatched = newEngine\<lparr>players :=
      [(setupPlayers ! 0)\<lparr>chips := 990, currentBet := 10\<rparr>,
       (setupPlayers ! 1)\<lparr>chips := 995, currentBet := 5, isFolded := True\<rparr>,
       (setupPlayers ! 2)\<lparr>chips := 990, currentBet := 10\<rparr>], pot := 25\<rparr>"

theorem isBettingRoundComplete_iff_witness:
  "isBettingRoundComplete betsMatched
   \<and> (card {i. i < length (players betsMatched) \<and> isActive (players betsMatched ! i)
              \<and> \<not> isFolded (players betsMatched ! i)} \<le> 1
        \<or> (\<forall>p\<in>set (players betsMatched). isActive p \<and> \<not> isFolded p \<longrightarrow>
              currentBet p = Max (currentBet ` set (players betsMatched)) \<or> isAllIn p))
   \<and> \<not> isBettingRoundComplete betsOpen
   \<and> \<not> (card {i. i < length (players betsOpen) \<and> isActive (players betsOpen ! i)
              \<and> \<not> isFolded (players betsOpen ! i)} \<le> 1
        \<or> (\<forall>p\<in>set (players betsOpen). isActive p \<and> \<not> isFolded p \<longrightarrow>
              currentBet p = Max (currentBet ` set (players betsOpen)) \<or> isAllIn p))"
proof -
  have m: "isBettingRoundComplete betsMatched"
    by (simp add: isBettingRoundComplete_def getCurrentBet_def betsMatched_def newEngine_def
          setupPlayers_def newPlayer_def)
  have n: "\<not> isBettingRoundComplete betsOpen"
    by (simp add: isBettingRoundComplete_def getCurrentBet_def betsOpen_def newEngine_def
          setupPlayers_def newPlayer_def)
  from m n isBettingRoundComplete_iff [of betsMatched] isBettingRoundComplete_iff [of betsOpen]
  show ?thesis by blast
qed

subsection \<open>A hand that ends in a split pot\<close>

text \<open>A deck as \<^verbatim>\<open>shuffleDeck\<close> can leave it. Cards are dealt from the end: the hole
  cards 2h 7h 2c, 3d 8d 3c, then (after a burn card each) the flop As Ks Qs, the turn Js
  and the river 10s.\<close>

definition boardPlaysDeck :: "card list" where
  "boardPlaysDeck =
     [mkCard ''3'' Hearts 3, mkCard ''5'' Hearts 5, mkCard ''6'' Hearts 6,
      mkCard ''8'' Hearts 8, mkCard ''9'' Hearts 9, mkCard ''10'' Hearts 10,
      mkCard ''J'' Hearts 11, mkCard ''Q'' Hearts 12, mkCard ''K'' Hearts 13,
      mkCard ''A'' Hearts 14, mkCard ''2'' Diamonds 2, mkCard ''5'' Diamonds 5,
      mkCard ''6'' Diamonds 6, mkCard ''7'' Diamonds 7, mkCard ''9'' Diamonds 9,
      mkCard ''10'' Diamonds 10, mkCard ''J'' Diamonds 11, mkCard ''Q'' Diamonds 12,
      mkCard ''K'' Diamonds 13, mkCard ''A'' Diamonds 14, mkCard ''5'' Clubs 5,
      mkCard ''6'' Clubs 6, mkCard ''7'' Clubs 7, mkCard ''8'' Clubs 8,
      mkCard ''9'' Clubs 9, mkCard ''10'' Clubs 10, mkCard ''J'' Clubs 11,
      mkCard ''Q'' Clubs 12, mkCard ''K'' Clubs 13, mkCard ''A'' Clubs 14,
      mkCard ''2'' Spades 2, mkCard ''3'' Spades 3, mkCard ''4'' Spades 4,
      mkCard ''5'' Spades 5, mkCard ''6'' Spades 6, mkCard ''7'' Spades 7,
      mkCard ''8'' Spades 8, mkCard ''9'' Spades 9, mkCard ''10'' Spades 10,
      mkCard ''4'' Clubs 4, mkCard ''J'' Spades 11, mkCard ''4'' Diamonds 4,
      mkCard ''Q'' Spades 12, mkCard ''K'' Spades 13, mkCard ''A'' Spades 14,
      mkCard ''4'' Hearts 4, mkCard ''3'' Clubs 3, mkCard ''8'' Diamonds 8,
      mkCard ''3'' Diamonds 3, mkCard ''2'' Clubs 2, mkCard ''7'' Hearts 7,
      mkCard ''2'' Hearts 2]"

lemmas evaluator_defs =
  evaluateHand_def toEvalCard_def sortByRankDesc_def sortDesc_def
  checkRoyalFlush_def checkStraightFlush_def checkFourOfAKind_def checkFullHouse_def
  checkFlush_def checkStraight_def checkThreeOfAKind_def checkTwoPair_def checkPair_def
  checkHighCard_def getFlushCards_def getRankCounts_def objectEntries_def findStraight_def
  cardsOfRanks_def List.map_filter_def HAND_NAMES_def HAND_RANKS Let_def
  getBestFiveCardHand_def generateCombinations.simps compareKickers_eval compareHands_def

lemmas engine_defs =
  startNewHand_def resetPlayer_def postBlinds_def postBlind_def dealPocketCards_def
  giveCard_def dealCard_def executePlayerAction_def applyAction_def commit_def
  getCurrentBet_def isBettingRoundComplete_def dealFlop_def dealTurn_def dealRiver_def
  burnCard_def pushCommunityCard_def andThen_def showdown_def contenders_def
  evaluateWinner_def awardPot_def sortByHand_def newEngine_def setupPlayers_def
  newPlayer_def schedule.simps nextPlayerFrom.simps upt_rec mkCard_def

text \<open>The conserved quantity of claim C4: all stacks plus the pot.\<close>

definition totalChips :: "engine \<Rightarrow> rat" where
  "totalChips s = sum_list (map chips (players s)) + pot s"

text \<open>An action applied to the outcome of the previous call.\<close>

definition thenAct ::
  "(error + engine) option \<Rightarrow> nat \<Rightarrow> action \<Rightarrow> rat \<Rightarrow> (error + engine) option" where
  "thenAct r i act amount =
     (case r of
        None \<Rightarrow> None
      | Some (Inl e) \<Rightarrow> Some (Inl e)
      | Some (Inr s) \<Rightarrow> executePlayerAction s i act amount)"

definition tiedHand :: "(error + engine) option" where
  "tiedHand = thenAct (thenAct (startNewHand boardPlaysDeck newEngine) 0 Call 0) 1 Fold 0"


definition seat :: "nat \<Rightarrow> rat \<Rightarrow> rat \<Rightarrow> rat \<Rightarrow> card list \<Rightarrow> bool \<Rightarrow> player" where
  "seat i stack bet invested hole folded =
     (setupPlayers ! i)\<lparr>chips := stack, currentBet := bet, totalInvested := invested,
        cards := hole, isFolded := folded\<rparr>"

definition holeCards :: "card list list" where
  "holeCards = [[mkCard ''2'' Hearts 2, mkCard ''3'' Diamonds 3],
                [mkCard ''7'' Hearts 7, mkCard ''8'' Diamonds 8],
                [mkCard ''2'' Clubs 2, mkCard ''3'' Clubs 3]]"

definition afterDeal :: engine where
  "afterDeal = newEngine\<lparr>deck := take 46 boardPlaysDeck,
      players := [seat 0 1000 0 0 (holeCards ! 0) False, seat 1 995 5 5 (holeCards ! 1) False,
                  seat 2 990 10 10 (holeCards ! 2) False],
      pot := 15, handNumber := 1, gameStarted := True\<rparr>"

lemma tied_start: "startNewHand boardPlaysDeck newEngine = Some (Inr afterDeal)"
  by (simp add: afterDeal_def seat_def holeCards_def boardPlaysDeck_def engine_defs Let_def)

definition afterCall :: engine where
  "afterCall = afterDeal\<lparr>
      players := [seat 0 990 10 10 (holeCards ! 0) False, seat 1 995 5 5 (holeCards ! 1) False,
                  seat 2 990 10 10 (holeCards ! 2) False],
      pot := 25, currentPlayerIndex := 1\<rparr>"

lemma tied_call: "executePlayerAction afterDeal 0 Call 0 = Some (Inr afterCall)"
  by (simp add: afterCall_def afterDeal_def seat_def holeCards_def engine_defs Let_def)


definition board :: "card list" where
  "board = [mkCard ''A'' Spades 14, mkCard ''K'' Spades 13, mkCard ''Q'' Spades 12,
            mkCard ''J'' Spades 11, mkCard ''10'' Spades 10]"

definition atRiver :: engine where
  "atRiver = afterCall\<lparr>deck := take 38 boardPlaysDeck, communityCards := board,
      players := [seat 0 990 0 10 (holeCards ! 0) False, seat 1 995 0 5 (holeCards ! 1) True,
                  seat 2 990 0 10 (holeCards ! 2) False],
      gamePhase := River\<rparr>"

definition afterShowdown :: engine where
  "afterShowdown = atRiver\<lparr>
      players := [seat 0 1002 0 10 (holeCards ! 0) False, seat 1 995 0 5 (holeCards ! 1) True,
                  seat 2 1002 0 10 (holeCards ! 2) False],
      pot := 0, gamePhase := Showdown, gameStarted := False\<rparr>"

lemma royal0: "getBestFiveCardHand (holeCards ! 0) board
   = Inr (Some \<lparr>hand_rank = 10, hand_name = ''Royal Flush'', kickers = [14],
       hand_cards = map toEvalCard board\<rparr>)"
  by (simp add: holeCards_def board_def mkCard_def evaluator_defs)

lemma royal2: "getBestFiveCardHand (holeCards ! 2) board
   = Inr (Some \<lparr>hand_rank = 10, hand_name = ''Royal Flush'', kickers = [14],
       hand_cards = map toEvalCard board\<rparr>)"
  by (simp add: holeCards_def board_def mkCard_def evaluator_defs)

lemma contenders_river: "contenders (atRiver\<lparr>gamePhase := Showdown\<rparr>) = [0, 2]"
  by (simp add: contenders_def atRiver_def afterCall_def afterDeal_def seat_def newEngine_def
       setupPlayers_def newPlayer_def upt_rec)

lemma hands_river: "handsOf (atRiver\<lparr>gamePhase := Showdown\<rparr>) [0, 2]
   = Inr [(0, \<lparr>hand_rank = 10, hand_name = ''Royal Flush'', kickers = [14],
                hand_cards = map toEvalCard board\<rparr>),
          (2, \<lparr>hand_rank = 10, hand_name = ''Royal Flush'', kickers = [14],
                hand_cards = map toEvalCard board\<rparr>)]"
proof -
  have c: "cards (players atRiver ! 0) = holeCards ! 0"
     "cards (players atRiver ! 2) = holeCards ! 2"
     "communityCards atRiver = board"
    by (simp_all add: atRiver_def seat_def)
  show ?thesis by (simp add: c royal0 royal2)
qed


definition royal :: HandResult where
  "royal = \<lparr>hand_rank = 10, hand_name = ''Royal Flush'', kickers = [14],
                hand_cards = map toEvalCard board\<rparr>"

lemma sortByHand_two_royals: "sortByHand [(0, royal), (2, royal)] = [(0, royal), (2, royal)]"
  by (simp add: sortByHand_def compareHands_refl)

lemma filter_two_royals: "filter (\<lambda>ph. compareHands (snd ph) royal = 0) [(0::nat, royal), (2, royal)]
    = [(0, royal), (2, royal)]"
  by (simp add: compareHands_refl)

lemma floor_rat_numerals:
  "\<lfloor>(numeral a :: rat) / numeral b\<rfloor> = numeral a div numeral b"
  using floor_divide_of_int_eq [of "numeral a" "numeral b", where ?'a = rat] by simp

lemma payWinners_river: "payWinners 12 [0, 2] (players atRiver) = players afterShowdown"
  by (simp add: afterShowdown_def atRiver_def seat_def)


lemma hands_river': "handsOf (atRiver\<lparr>gamePhase := Showdown\<rparr>) [0, 2] = Inr [(0, royal), (2, royal)]"
  by (simp only: hands_river royal_def)

lemma pot_river: "pot (atRiver\<lparr>gamePhase := Showdown\<rparr>) = 25"
  by (simp add: atRiver_def afterCall_def)

lemma showdown_final: "showdown atRiver = Inr afterShowdown"
proof -
  have "evaluateWinner [0, 2] (atRiver\<lparr>gamePhase := Showdown\<rparr>)
      = Inr (atRiver\<lparr>gamePhase := Showdown, players := players afterShowdown, pot := 0\<rparr>)"
    by (simp add: evaluateWinner_def hands_river' sortByHand_two_royals filter_two_royals compareHands_refl Let_def pot_river
          floor_rat_numerals payWinners_river
          del: payWinners.simps handsOf.simps)
  then show ?thesis
    unfolding showdown_def Let_def contenders_river
    by (simp add: afterShowdown_def)
qed


definition afterFold :: engine where
  "afterFold = afterCall\<lparr>
      players := [seat 0 990 10 10 (holeCards ! 0) False, seat 1 995 5 5 (holeCards ! 1) True,
                  seat 2 990 10 10 (holeCards ! 2) False]\<rparr>"

definition atFlop :: engine where
  "atFlop = atRiver\<lparr>deck := take 42 boardPlaysDeck, communityCards := take 3 board,
      gamePhase := Flop\<rparr>"

definition atTurn :: engine where
  "atTurn = atRiver\<lparr>deck := take 40 boardPlaysDeck, communityCards := take 4 board,
      gamePhase := Turn\<rparr>"

lemmas stage_defs =
  afterFold_def atFlop_def atTurn_def atRiver_def afterCall_def afterDeal_def seat_def
  holeCards_def board_def boardPlaysDeck_def mkCard_def newEngine_def setupPlayers_def
  newPlayer_def isBettingRoundComplete_def getCurrentBet_def dealFlop_def dealTurn_def
  dealRiver_def burnCard_def pushCommunityCard_def andThen_def dealCard_def Let_def

lemma fold_applied: "applyAction afterCall 1 Fold 0 = Inr afterFold"
  by (simp add: applyAction_def stage_defs)

lemma to_flop: "schedule MoveToNextPlayer afterFold = schedule MoveToNextPlayer atFlop"
  apply (subst schedule.simps, simp add: stage_defs)
  apply (subst schedule.simps, simp add: stage_defs)
  apply (subst schedule.simps, simp add: stage_defs)
  apply (subst schedule.simps, simp add: stage_defs)
  apply (subst schedule.simps, simp add: stage_defs)
  done


lemma to_turn: "schedule MoveToNextPlayer atFlop = schedule MoveToNextPlayer atTurn"
  apply (subst schedule.simps, simp add: stage_defs)
  apply (subst schedule.simps, simp add: stage_defs)
  apply (subst schedule.simps, simp add: stage_defs)
  apply (subst schedule.simps, simp add: stage_defs)
  apply (subst schedule.simps, simp add: stage_defs)
  done

lemma to_river: "schedule MoveToNextPlayer atTurn = schedule MoveToNextPlayer atRiver"
  apply (subst schedule.simps, simp add: stage_defs)
  apply (subst schedule.simps, simp add: stage_defs)
  apply (subst schedule.simps, simp add: stage_defs)
  apply (subst schedule.simps, simp add: stage_defs)
  apply (subst schedule.simps, simp add: stage_defs)
  done

lemma river_reset:
  "atRiver\<lparr>players := map (\<lambda>p. p\<lparr>currentBet := 0\<rparr>) (players atRiver)\<rparr> = atRiver"
  by (simp add: atRiver_def seat_def)

lemma to_showdown: "schedule MoveToNextPlayer atRiver = Some (Inr afterShowdown)"
proof -
  have c: "isBettingRoundComplete atRiver" by (simp add: stage_defs)
  have p: "gamePhase atRiver = River" by (simp add: atRiver_def)
  have "schedule MoveToNextPlayer atRiver = schedule CompleteBettingRound atRiver"
    by (subst schedule.simps) (simp add: c)
  also have "\<dots> = schedule AdvanceGamePhase atRiver"
    by (subst schedule.simps) (simp add: river_reset)
  also have "\<dots> = Some (showdown atRiver)"
    by (subst schedule.simps) (simp add: p)
  finally show ?thesis by (simp add: showdown_final)
qed

text \<open>
  Claim C4 at a concrete hand. At the table of \<^verbatim>\<open>setupPlayers\<close> (three seats with
  1000 chips, blinds 5 and 10, dealer seat 0) the hand is started on a deck whose board
  is the royal flush in spades, the human seat calls and the small blind folds. The
  round is then complete, the remaining streets are dealt without further action and the
  showdown finds seats 0 and 2 tied: each receives \<open>floor (25 / 2) = 12\<close> and the pot
  is set to zero. The stacks add up to 2999, one chip less than the 3000 before the
  blinds.
\<close>

theorem split_pot_loses_a_chip: "totalChips newEngine = 3000
   \<and> tiedHand = Some (Inr afterShowdown) \<and> gamePhase afterShowdown = Showdown
   \<and> map chips (players afterShowdown) = [1002, 995, 1002] \<and> pot afterShowdown = 0
   \<and> totalChips afterShowdown = 2999"
proof -
  have "tiedHand = executePlayerAction afterCall 1 Fold 0"
    by (simp only: tiedHand_def thenAct_def tied_start tied_call option.case sum.case)
  also have "\<dots> = schedule MoveToNextPlayer afterFold"
    by (simp only: executePlayerAction_def fold_applied sum.case)
  also have "\<dots> = Some (Inr afterShowdown)"
    by (simp only: to_flop to_turn to_river to_showdown)
  finally have "tiedHand = Some (Inr afterShowdown)" .
  moreover have "totalChips newEngine = 3000"
    by (simp add: totalChips_def newEngine_def setupPlayers_def newPlayer_def)
  moreover have "gamePhase afterShowdown = Showdown \<and> map chips (players afterShowdown) = [1002, 995, 1002]
      \<and> pot afterShowdown = 0 \<and> totalChips afterShowdown = 2999"
    by (simp add: totalChips_def afterShowdown_def seat_def)
  ultimately show ?thesis by simp
qed


subsection \<open>Blinds, actions and the uncontested award conserve chips\<close>

lemma sum_list_update_rat:
  fixes xs :: "rat list"
  shows "k < length xs \<Longrightarrow> sum_list (xs[k := x]) = sum_list xs + x - xs ! k"
  by (induction xs arbitrary: k) (auto split: nat.splits)

lemma sum_chips_update:
  "i < length ps \<Longrightarrow>
     sum_list (map chips (ps[i := p])) = sum_list (map chips ps) + chips p - chips (ps ! i)"
  by (simp add: map_update sum_list_update_rat)

lemma totalChips_commit:
  "i < length (players s) \<Longrightarrow> totalChips (commit i amount s) = totalChips s"
  by (simp add: commit_def totalChips_def Let_def sum_chips_update)

lemma totalChips_applyAction:
  "applyAction s i act amount = Inr s' \<Longrightarrow> totalChips s' = totalChips s"
proof (cases act)
  case Fold
  assume "applyAction s i act amount = Inr s'"
  with Fold show ?thesis
    by (auto simp: applyAction_def Let_def totalChips_def sum_chips_update split: if_splits)
next
  case Check
  assume "applyAction s i act amount = Inr s'"
  with Check show ?thesis by (auto simp: applyAction_def Let_def split: if_splits)
next
  case Call
  assume "applyAction s i act amount = Inr s'"
  with Call show ?thesis
    by (auto simp: applyAction_def Let_def totalChips_commit split: if_splits option.splits)
next
  case Raise
  assume "applyAction s i act amount = Inr s'"
  with Raise show ?thesis
    by (auto simp: applyAction_def Let_def totalChips_commit split: if_splits option.splits)
qed

lemma totalChips_postBlind:
  "i < length (players s) \<Longrightarrow> totalChips (postBlind i blind s) = totalChips s"
  by (simp add: postBlind_def totalChips_def Let_def sum_chips_update)

lemma length_players_postBlind [simp]:
  "length (players (postBlind i blind s)) = length (players s)"
  by (simp add: postBlind_def Let_def)

lemma totalChips_postBlinds: "totalChips (postBlinds s) = totalChips s"
proof (cases "length (filter isActive (players s)) < 2")
  case True
  then show ?thesis by (simp add: postBlinds_def)
next
  case False
  then have "players s \<noteq> []" by auto
  then have n: "0 < length (players s)" by simp
  let ?sb = "(dealerPosition s + 1) mod length (players s)"
  let ?bb = "(dealerPosition s + 2) mod length (players s)"
  let ?s1 = "postBlind ?sb (blinds_small s) s"
  have "totalChips (postBlind ?bb (blinds_big s) ?s1) = totalChips ?s1"
    using n by (intro totalChips_postBlind) simp
  also have "\<dots> = totalChips s" using n by (intro totalChips_postBlind) simp
  finally show ?thesis using False by (simp add: postBlinds_def Let_def totalChips_def)
qed

lemma totalChips_awardPot:
  "i < length (players s) \<Longrightarrow> totalChips (awardPot i s) = totalChips s"
  by (simp add: awardPot_def totalChips_def Let_def sum_chips_update)


subsection \<open>Distribution of the pot at showdown\<close>

text \<open>The order in which \<^verbatim>\<open>sort\<close> leaves two entries: the earlier one compares
  at least as high.\<close>

definition atLeast :: "nat \<times> HandResult \<Rightarrow> nat \<times> HandResult \<Rightarrow> bool" where
  "atLeast a b \<longleftrightarrow> compareHands (snd a) (snd b) \<ge> 0"

lemma set_insertByHand [simp]: "set (insertByHand a bs) = insert a (set bs)"
  by (induction bs) auto

lemma mset_insertByHand [simp]: "mset (insertByHand a bs) = add_mset a (mset bs)"
  by (induction bs) auto

lemma mset_sortByHand [simp]: "mset (sortByHand xs) = mset xs"
  by (induction xs) (simp_all add: sortByHand_def)

lemma set_sortByHand [simp]: "set (sortByHand xs) = set xs"
  using mset_sortByHand [of xs] by (metis set_mset_mset)

lemma sorted_insertByHand:
  "sorted_wrt atLeast bs \<Longrightarrow> sorted_wrt atLeast (insertByHand a bs)"
proof (induction bs)
  case Nil
  then show ?case by simp
next
  case (Cons b bs)
  show ?case
  proof (cases "compareHands (snd b) (snd a) > 0")
    case True
    then have "atLeast b a" by (simp add: atLeast_def)
    with Cons True show ?thesis by auto
  next
    case False
    then have ab: "atLeast a b"
      using compareHands_antisym [of "snd b" "snd a"] by (simp add: atLeast_def)
    have "atLeast a x" if "x \<in> set bs" for x
    proof -
      from Cons.prems that have "atLeast b x" by simp
      with ab show ?thesis unfolding atLeast_def by (rule compareHands_trans)
    qed
    with ab Cons.prems False show ?thesis by auto
  qed
qed

lemma sorted_sortByHand: "sorted_wrt atLeast (sortByHand xs)"
  by (induction xs) (simp_all add: sortByHand_def sorted_insertByHand)

lemma sortByHand_head_is_best:
  assumes "sortByHand xs = best # rest" "x \<in> set xs"
  shows "compareHands (snd best) (snd x) \<ge> 0"
proof -
  from sorted_sortByHand [of xs] assms(1) have "\<forall>y\<in>set rest. atLeast best y" by simp
  moreover from assms have "x = best \<or> x \<in> set rest"
    using set_sortByHand [of xs] by auto
  ultimately show ?thesis by (auto simp: atLeast_def compareHands_refl)
qed

lemma ties_with_best_iff:
  assumes "sortByHand xs = best # rest" "x \<in> set xs"
  shows "compareHands (snd x) (snd best) = 0
     \<longleftrightarrow> (\<forall>y\<in>set xs. compareHands (snd x) (snd y) \<ge> 0)"
proof
  assume z: "compareHands (snd x) (snd best) = 0"
  show "\<forall>y\<in>set xs. compareHands (snd x) (snd y) \<ge> 0"
  proof
    fix y assume "y \<in> set xs"
    with assms(1) have "compareHands (snd best) (snd y) \<ge> 0"
      by (rule sortByHand_head_is_best)
    moreover from z have "compareHands (snd x) (snd best) \<ge> 0" by simp
    ultimately show "compareHands (snd x) (snd y) \<ge> 0"
      using compareHands_trans by blast
  qed
next
  assume m: "\<forall>y\<in>set xs. compareHands (snd x) (snd y) \<ge> 0"
  have "best \<in> set xs" using assms(1) set_sortByHand [of xs] by auto
  with m have "compareHands (snd x) (snd best) \<ge> 0" by blast
  moreover from assms have "compareHands (snd best) (snd x) \<ge> 0"
    by (rule sortByHand_head_is_best)
  ultimately show "compareHands (snd x) (snd best) = 0"
    using compareHands_antisym [of "snd best" "snd x"] by simp
qed

lemma length_payWinners [simp]: "length (payWinners a ws ps) = length ps"
  by (induction ws arbitrary: ps) simp_all

lemma payWinners_nth:
  assumes "distinct ws" "\<forall>w\<in>set ws. w < length ps" "i < length ps"
  shows "payWinners a ws ps ! i =
           (if i \<in> set ws then (ps ! i)\<lparr>chips := chips (ps ! i) + a\<rparr> else ps ! i)"
  using assms
proof (induction ws arbitrary: ps)
  case Nil
  then show ?case by simp
next
  case (Cons w ws)
  let ?ps = "ps[w := (ps ! w)\<lparr>chips := chips (ps ! w) + a\<rparr>]"
  from Cons.prems have "payWinners a ws ?ps ! i =
      (if i \<in> set ws then (?ps ! i)\<lparr>chips := chips (?ps ! i) + a\<rparr> else ?ps ! i)"
    by (intro Cons.IH) auto
  with Cons.prems show ?case by (auto simp: nth_list_update)
qed

text \<open>The hand of a seat at showdown, the seats tied for the best hand and the amount
  each of them is paid. The evaluator always returns a hand (lemma
  \<open>getBestFiveCardHand_total\<close>), so the second case of \<open>seatHand\<close> is never taken.\<close>

definition seatHand :: "engine \<Rightarrow> nat \<Rightarrow> HandResult" where
  "seatHand s i =
     (case getBestFiveCardHand (cards (players s ! i)) (communityCards s) of
        Inr (Some hand) \<Rightarrow> hand
      | _ \<Rightarrow> evaluateHand [])"

definition showdownWinners :: "engine \<Rightarrow> nat list" where
  "showdownWinners s =
     filter (\<lambda>i. list_all (\<lambda>j. compareHands (seatHand s i) (seatHand s j) \<ge> 0)
                   (contenders s))
       (contenders s)"

definition winnerShare :: "engine \<Rightarrow> rat" where
  "winnerShare s =
     (if length (showdownWinners s) = 1 then pot s
      else of_int \<lfloor>pot s / of_nat (length (showdownWinners s))\<rfloor>)"

lemma seatHand_eq:
  "getBestFiveCardHand (cards (players s ! i)) (communityCards s) = Inr (Some (seatHand s i))"
proof -
  from getBestFiveCardHand_total obtain c where
    "getBestFiveCardHand (cards (players s ! i)) (communityCards s)
       = Inr (Some (evaluateHand c))" by blast
  then show ?thesis by (simp add: seatHand_def)
qed

lemma handsOf_eq: "handsOf s seats = Inr (map (\<lambda>i. (i, seatHand s i)) seats)"
  by (induction seats) (simp_all add: seatHand_eq)

lemma contenders_facts:
  "distinct (contenders s)" "\<forall>i\<in>set (contenders s). i < length (players s)"
  by (auto simp: contenders_def)

lemma contenders_phase [simp]: "contenders (s\<lparr>gamePhase := ph\<rparr>) = contenders s"
  by (simp add: contenders_def)

lemma seatHand_phase [simp]: "seatHand (s\<lparr>gamePhase := ph\<rparr>) i = seatHand s i"
  by (simp add: seatHand_def)

lemma showdownWinners_facts:
  "distinct (showdownWinners s)"
  "set (showdownWinners s) =
     {i \<in> set (contenders s). \<forall>j\<in>set (contenders s).
         compareHands (seatHand s i) (seatHand s j) \<ge> 0}"
  by (auto simp: showdownWinners_def contenders_facts list_all_iff)

lemma pot_awardPot [simp]: "pot (awardPot w s) = 0"
  by (simp add: awardPot_def Let_def)

lemma length_players_awardPot [simp]:
  "length (players (awardPot w s)) = length (players s)"
  by (simp add: awardPot_def Let_def)

lemma chips_awardPot:
  assumes "w < length (players s)" "i < length (players s)"
  shows "chips (players (awardPot w s) ! i)
           = chips (players s ! i) + (if i = w then pot s else 0)"
  using assms by (auto simp: awardPot_def Let_def nth_list_update)

lemma evaluateWinner_result:
  assumes ne: "contenders s \<noteq> []"
  shows "\<exists>s'. evaluateWinner (contenders s) s = Inr s' \<and> pot s' = 0
      \<and> length (players s') = length (players s)
      \<and> (\<forall>i<length (players s). chips (players s' ! i)
            = chips (players s ! i) + (if i \<in> set (showdownWinners s) then winnerShare s else 0))"
proof -
  let ?cs = "contenders s"
  let ?ph = "map (\<lambda>i. (i, seatHand s i)) ?cs"
  from ne have "sortByHand ?ph \<noteq> []"
    using mset_sortByHand [of ?ph] by (metis mset_zero_iff map_is_Nil_conv)
  then obtain best rest where sorted: "sortByHand ?ph = best # rest"
    by (cases "sortByHand ?ph") auto
  define winners where
    "winners = filter (\<lambda>ph. compareHands (snd ph) (snd best) = 0) (best # rest)"
  have dist_sorted: "distinct (map fst (sortByHand ?ph))"
  proof -
    have "mset (map fst (sortByHand ?ph)) = mset (map fst ?ph)"
      by (simp only: mset_map mset_sortByHand)
    moreover have "distinct (map fst ?ph)" by (simp add: comp_def contenders_facts)
    ultimately show ?thesis by (metis mset_eq_imp_distinct_iff)
  qed
  then have dw: "distinct (map fst winners)"
    unfolding winners_def sorted by (rule distinct_map_filter)
  have mem: "x \<in> set (best # rest) \<longleftrightarrow> (\<exists>i\<in>set ?cs. x = (i, seatHand s i))" for x
    using set_sortByHand [of ?ph] sorted by auto
  have sw: "set (map fst winners) = set (showdownWinners s)"
  proof -
    have "x \<in> set winners \<longleftrightarrow>
        (\<exists>i\<in>set ?cs. x = (i, seatHand s i)
           \<and> (\<forall>j\<in>set ?cs. compareHands (seatHand s i) (seatHand s j) \<ge> 0))" for x
    proof (cases "x \<in> set ?ph")
      case True
      from ties_with_best_iff [OF sorted True]
      have "compareHands (snd x) (snd best) = 0
          \<longleftrightarrow> (\<forall>j\<in>set ?cs. compareHands (snd x) (seatHand s j) \<ge> 0)" by simp
      with True show ?thesis unfolding winners_def using mem [of x] by auto
    next
      case False
      then show ?thesis unfolding winners_def using mem [of x] by auto
    qed
    then show ?thesis by (force simp: showdownWinners_facts(2))
  qed
  have lw: "length winners = length (showdownWinners s)"
  proof -
    have "length (map fst winners) = card (set (map fst winners))"
      using dw by (rule distinct_card [symmetric])
    also have "\<dots> = card (set (showdownWinners s))" by (simp only: sw)
    also have "\<dots> = length (showdownWinners s)"
      by (simp add: distinct_card showdownWinners_facts(1))
    finally show ?thesis by simp
  qed
  have in_range: "\<forall>w\<in>set (map fst winners). w < length (players s)"
    using sw showdownWinners_facts(2) [of s] contenders_facts(2) [of s] by auto
  have ev: "evaluateWinner ?cs s =
      (if length winners = 1 then Inr (awardPot (fst (hd winners)) s)
       else Inr (s\<lparr>players := payWinners (of_int \<lfloor>pot s / of_nat (length winners)\<rfloor>)
                                 (map fst winners) (players s),
                   pot := 0\<rparr>))"
    by (simp add: evaluateWinner_def handsOf_eq sorted winners_def Let_def)
  show ?thesis
  proof (cases "length winners = 1")
    case True
    then obtain w where w: "winners = [w]" by (cases winners) auto
    with sw have one: "set (showdownWinners s) = {fst w}" by simp
    from w in_range have r: "fst w < length (players s)" by simp
    from True lw have share: "winnerShare s = pot s" by (simp add: winnerShare_def)
    from True ev w have "evaluateWinner ?cs s = Inr (awardPot (fst w) s)" by simp
    with chips_awardPot [OF r] one share show ?thesis by auto
  next
    case False
    with lw have share: "winnerShare s = of_int \<lfloor>pot s / of_nat (length winners)\<rfloor>"
      by (simp add: winnerShare_def)
    from False ev have e: "evaluateWinner ?cs s =
        Inr (s\<lparr>players := payWinners (winnerShare s) (map fst winners) (players s),
                 pot := 0\<rparr>)" by (simp add: share)
    have "chips (payWinners (winnerShare s) (map fst winners) (players s) ! i)
        = chips (players s ! i) + (if i \<in> set (showdownWinners s) then winnerShare s else 0)"
      if "i < length (players s)" for i
      using payWinners_nth [OF dw in_range that, of "winnerShare s"] sw by auto
    with e show ?thesis by simp
  qed
qed

lemma showdownWinners_phase [simp]:
  "showdownWinners (s\<lparr>gamePhase := ph\<rparr>) = showdownWinners s"
  by (simp add: showdownWinners_def)

lemma winnerShare_phase [simp]: "winnerShare (s\<lparr>gamePhase := ph\<rparr>) = winnerShare s"
  by (simp add: winnerShare_def)

lemma showdownWinners_nonempty:
  assumes "contenders s \<noteq> []"
  shows "showdownWinners s \<noteq> []"
proof -
  from evaluateWinner_result [OF assms] obtain s' where
    "evaluateWinner (contenders s) s = Inr s'" by blast
  let ?ph = "map (\<lambda>i. (i, seatHand s i)) (contenders s)"
  from assms have "sortByHand ?ph \<noteq> []"
    using mset_sortByHand [of ?ph] by (metis mset_zero_iff map_is_Nil_conv)
  then obtain best rest where sorted: "sortByHand ?ph = best # rest"
    by (cases "sortByHand ?ph") auto
  then have "best \<in> set ?ph" using set_sortByHand [of ?ph] by auto
  then obtain i where i: "i \<in> set (contenders s)" "best = (i, seatHand s i)" by auto
  have "\<forall>j\<in>set (contenders s). compareHands (seatHand s i) (seatHand s j) \<ge> 0"
  proof
    fix j assume "j \<in> set (contenders s)"
    then have "(j, seatHand s j) \<in> set ?ph" by simp
    from sortByHand_head_is_best [OF sorted this] i(2) show
      "compareHands (seatHand s i) (seatHand s j) \<ge> 0" by simp
  qed
  with i(1) have "i \<in> set (showdownWinners s)" by (simp add: showdownWinners_facts(2))
  then show ?thesis by auto
qed

text \<open>What the showdown does to the stacks and the pot.\<close>

lemma showdown_result:
  assumes "contenders s \<noteq> []"
  shows "\<exists>s'. showdown s = Inr s' \<and> pot s' = 0 \<and> length (players s') = length (players s)
     \<and> (\<forall>i<length (players s). chips (players s' ! i)
           = chips (players s ! i)
             + (if i \<in> set (showdownWinners s) then winnerShare s else 0))"
proof (cases "length (contenders s) = 1")
  case True
  let ?s1 = "s\<lparr>gamePhase := Showdown\<rparr>"
  from True obtain w where w: "contenders s = [w]" by (cases "contenders s") auto
  with contenders_facts(2) [of s] have r: "w < length (players s)" by simp
  from w have sw: "showdownWinners s = [w]" "winnerShare s = pot s"
    by (simp_all add: showdownWinners_def winnerShare_def compareHands_refl)
  have "showdown s = Inr ((awardPot w ?s1)\<lparr>gameStarted := False\<rparr>)"
    using w by (simp add: showdown_def Let_def)
  moreover have "chips (players (awardPot w ?s1) ! i)
      = chips (players s ! i) + (if i = w then pot s else 0)"
    if "i < length (players s)" for i
    using chips_awardPot [of w ?s1 i] r that by simp
  ultimately show ?thesis using sw by simp
next
  case False
  let ?s1 = "s\<lparr>gamePhase := Showdown\<rparr>"
  from assms have "contenders ?s1 \<noteq> []" by simp
  from evaluateWinner_result [OF this] obtain s' where
    s': "evaluateWinner (contenders s) ?s1 = Inr s'" "pot s' = 0"
      "length (players s') = length (players s)"
      "\<forall>i<length (players s). chips (players s' ! i)
          = chips (players s ! i)
            + (if i \<in> set (showdownWinners s) then winnerShare s else 0)"
    by auto
  from False s'(1) have "showdown s = Inr (s'\<lparr>gameStarted := False\<rparr>)"
    by (simp add: showdown_def Let_def)
  with s' show ?thesis by simp
qed

text \<open>
  Claim C5, amended. At showdown with at least one contender (an active seat that has
  not folded) the seats tied for the best hand under \<^verbatim>\<open>compareHands\<close> are the
  winners: each receives the same amount, no other stack changes, and the pot is zero
  afterwards. A lone contender is the winner. A single winner, whether alone or ahead of
  other contenders, receives the entire pot through \<^verbatim>\<open>awardPot\<close>, without
  rounding; two or more winners each receive \<open>floor (pot / number of winners)\<close>. When
  the pot is a whole number of chips the amount is \<open>floor (pot / number of winners)\<close>
  in every case.
\<close>

theorem showdown_distributes_pot:
  assumes "contenders s \<noteq> []"
  shows "\<exists>s'. showdown s = Inr s' \<and> pot s' = 0 \<and> length (players s') = length (players s)
     \<and> (\<forall>i<length (players s). chips (players s' ! i)
           = chips (players s ! i)
             + (if i \<in> set (showdownWinners s) then winnerShare s else 0))
     \<and> showdownWinners s \<noteq> []
     \<and> (length (contenders s) = 1 \<longrightarrow> showdownWinners s = contenders s)
     \<and> (length (showdownWinners s) = 1 \<longrightarrow> winnerShare s = pot s)
     \<and> (length (showdownWinners s) \<noteq> 1 \<longrightarrow>
           winnerShare s = of_int \<lfloor>pot s / of_nat (length (showdownWinners s))\<rfloor>)
     \<and> (pot s \<in> \<int> \<longrightarrow>
           winnerShare s = of_int \<lfloor>pot s / of_nat (length (showdownWinners s))\<rfloor>)"
proof -
  have single: "showdownWinners s = contenders s" if "length (contenders s) = 1"
  proof -
    from that obtain i where "contenders s = [i]" by (cases "contenders s") auto
    then show ?thesis by (simp add: showdownWinners_def compareHands_refl)
  qed
  have whole: "winnerShare s = pot s" if "length (showdownWinners s) = 1"
    using that by (simp add: winnerShare_def)
  have split: "winnerShare s = of_int \<lfloor>pot s / of_nat (length (showdownWinners s))\<rfloor>"
    if "length (showdownWinners s) \<noteq> 1"
    using that by (simp add: winnerShare_def)
  have integral: "winnerShare s = of_int \<lfloor>pot s / of_nat (length (showdownWinners s))\<rfloor>"
    if "pot s \<in> \<int>"
  proof -
    from that obtain z where "pot s = of_int z" by (auto elim: Ints_cases)
    then show ?thesis by (simp add: winnerShare_def)
  qed
  from showdown_result [OF assms] single whole split integral
    showdownWinners_nonempty [OF assms]
  show ?thesis by blast
qed


text \<open>The split of the hand above, and the same table with seat 2 folded as well, where
  seat 0 is alone and takes the pot of 25.\<close>

definition uncontested :: engine where
  "uncontested = atRiver\<lparr>
      players := [seat 0 990 0 10 (holeCards ! 0) False, seat 1 995 0 5 (holeCards ! 1) True,
                  seat 2 990 0 10 (holeCards ! 2) True]\<rparr>"

theorem showdown_distributes_pot_witness:
  "contenders atRiver \<noteq> [] \<and> showdownWinners atRiver = [0, 2] \<and> winnerShare atRiver = 12
   \<and> (\<exists>s'. showdown atRiver = Inr s' \<and> pot s' = 0 \<and> chips (players s' ! 0) = 1002
          \<and> chips (players s' ! 1) = 995 \<and> chips (players s' ! 2) = 1002)
   \<and> length (contenders uncontested) = 1
   \<and> (\<exists>s'. showdown uncontested = Inr s' \<and> pot s' = 0 \<and> chips (players s' ! 0) = 1015
          \<and> chips (players s' ! 1) = 995 \<and> chips (players s' ! 2) = 990)"
proof -
  have c: "contenders atRiver = [0, 2]"
    using contenders_river by simp
  have h: "seatHand atRiver 0 = royal" "seatHand atRiver 2 = royal"
    by (simp_all add: seatHand_def atRiver_def seat_def royal0 royal2 royal_def)
  have w: "showdownWinners atRiver = [0, 2]"
    by (simp add: showdownWinners_def c h compareHands_refl)
  have p: "pot atRiver = 25" "length (players atRiver) = 3"
    "map chips (players atRiver) = [990, 995, 990]"
    by (simp_all add: atRiver_def afterCall_def seat_def)
  have sh: "winnerShare atRiver = 12"
    by (simp add: winnerShare_def w p floor_rat_numerals)
  have c1: "contenders uncontested = [0]"
    by (simp add: contenders_def uncontested_def atRiver_def afterCall_def afterDeal_def
          seat_def newEngine_def setupPlayers_def newPlayer_def upt_rec)
  have p1: "pot uncontested = 25" "length (players uncontested) = 3"
    "map chips (players uncontested) = [990, 995, 990]"
    by (simp_all add: uncontested_def atRiver_def afterCall_def seat_def)
  from c have ne: "contenders atRiver \<noteq> []" by simp
  from c1 have ne1: "contenders uncontested \<noteq> []" by simp
  from showdown_distributes_pot [OF ne] w sh p
  have a: "\<exists>s'. showdown atRiver = Inr s' \<and> pot s' = 0 \<and> chips (players s' ! 0) = 1002
          \<and> chips (players s' ! 1) = 995 \<and> chips (players s' ! 2) = 1002"
    by (auto simp: nth_Cons')
  from showdown_distributes_pot [OF ne1] c1 p1
  have b: "\<exists>s'. showdown uncontested = Inr s' \<and> pot s' = 0 \<and> chips (players s' ! 0) = 1015
          \<and> chips (players s' ! 1) = 995 \<and> chips (players s' ! 2) = 990"
    by (auto simp: nth_Cons')
  from ne w sh a c1 b show ?thesis by simp
qed

subsection \<open>A blind that takes the whole stack\<close>

text \<open>The table of \<^verbatim>\<open>setupPlayers\<close> with only three chips left in seat 1, the small
  blind.\<close>

definition shortStackTable :: engine where
  "shortStackTable = newEngine\<lparr>players :=
      [setupPlayers ! 0, (setupPlayers ! 1)\<lparr>chips := 3\<rparr>, setupPlayers ! 2]\<rparr>"

text \<open>What posting a blind does to an active seat: the amount is the blind clamped to the
  stack; it leaves the stack, becomes the current bet and the total invested and is
  added to the pot. The all-in flag keeps its value.\<close>

lemma postBlind_effect:
  assumes "i < length (players s)" "isActive (players s ! i)"
  shows "players (postBlind i blind s) ! i
           = (players s ! i)\<lparr>chips := chips (players s ! i) - min blind (chips (players s ! i)),
                currentBet := min blind (chips (players s ! i)),
                totalInvested := min blind (chips (players s ! i))\<rparr>
         \<and> pot (postBlind i blind s) = pot s + min blind (chips (players s ! i))
         \<and> isAllIn (players (postBlind i blind s) ! i) = isAllIn (players s ! i)"
  using assms by (simp add: postBlind_def Let_def)

text \<open>
  Claim C7 at a concrete hand. The small blind of 5 is clamped to the three chips of
  seat 1: the stack is 0, current bet and total invested are 3, the pot holds 13 with the
  big blind. The seat has no chips left, yet its all-in flag is not set when the hand
  has started, nor after the human seat has called; it is set only when the seat itself
  calls, in \<^verbatim>\<open>executePlayerAction\<close>.
\<close>

theorem short_small_blind_is_not_marked_all_in:
  "\<exists>s. startNewHand boardPlaysDeck shortStackTable = Some (Inr s)
     \<and> chips (players s ! 1) = 0 \<and> currentBet (players s ! 1) = 3
     \<and> totalInvested (players s ! 1) = 3 \<and> pot s = 13
     \<and> \<not> isAllIn (players s ! 1)
     \<and> (\<exists>s'. executePlayerAction s 0 Call 0 = Some (Inr s')
           \<and> currentPlayerIndex s' = 1 \<and> \<not> isAllIn (players s' ! 1)
           \<and> (\<exists>s''. executePlayerAction s' 1 Call 0 = Some (Inr s'')
                 \<and> chips (players s'' ! 1) = 0 \<and> currentBet (players s'' ! 1) = 0
                 \<and> pot s'' = 23 \<and> isAllIn (players s'' ! 1)))"
  by (simp add: shortStackTable_def boardPlaysDeck_def engine_defs Let_def)


section \<open>The decision agent\<close>

subsection \<open>Profiles\<close>

text \<open>The numeric fields of an entry of \<^verbatim>\<open>PokerAI.PERSONALITIES\<close> and of
  \<^verbatim>\<open>PokerAI.DIFFICULTY_MODIFIERS\<close>. Decimal literals are exact rationals here.\<close>

record personalityProfile =
  vpip :: rat
  pfr :: rat
  aggression :: rat
  bluffFreq :: rat
  callThreshold :: rat
  raiseThreshold :: rat

record difficultyProfile =
  skillMod :: rat
  errorRate :: rat
  bluffDetection :: rat

definition PERSONALITIES :: "personalityName \<Rightarrow> personalityProfile" where
  "PERSONALITIES n =
     (case n of
        Tight \<Rightarrow> \<lparr>vpip = 15 / 100, pfr = 12 / 100, aggression = 3 / 10, bluffFreq = 5 / 100,
                   callThreshold = 6 / 10, raiseThreshold = 8 / 10\<rparr>
      | Loose \<Rightarrow> \<lparr>vpip = 35 / 100, pfr = 18 / 100, aggression = 4 / 10, bluffFreq = 15 / 100,
                   callThreshold = 3 / 10, raiseThreshold = 6 / 10\<rparr>
      | Aggressive \<Rightarrow> \<lparr>vpip = 25 / 100, pfr = 22 / 100, aggression = 7 / 10,
                   bluffFreq = 25 / 100, callThreshold = 4 / 10, raiseThreshold = 5 / 10\<rparr>
      | Passive \<Rightarrow> \<lparr>vpip = 28 / 100, pfr = 8 / 100, aggression = 2 / 10, bluffFreq = 3 / 100,
                   callThreshold = 35 / 100, raiseThreshold = 85 / 100\<rparr>
      | Maniac \<Rightarrow> \<lparr>vpip = 45 / 100, pfr = 35 / 100, aggression = 9 / 10, bluffFreq = 4 / 10,
                   callThreshold = 25 / 100, raiseThreshold = 3 / 10\<rparr>)"

definition DIFFICULTY_MODIFIERS :: "nat \<Rightarrow> difficultyProfile option" where
  "DIFFICULTY_MODIFIERS d =
     (if d = 1 then Some \<lparr>skillMod = 3 / 10, errorRate = 3 / 10, bluffDetection = 2 / 10\<rparr>
      else if d = 2 then Some \<lparr>skillMod = 5 / 10, errorRate = 2 / 10, bluffDetection = 4 / 10\<rparr>
      else if d = 3 then Some \<lparr>skillMod = 7 / 10, errorRate = 15 / 100, bluffDetection = 6 / 10\<rparr>
      else if d = 4 then Some \<lparr>skillMod = 85 / 100, errorRate = 1 / 10, bluffDetection = 8 / 10\<rparr>
      else if d = 5 then Some \<lparr>skillMod = 1, errorRate = 5 / 100, bluffDetection = 9 / 10\<rparr>
      else None)"

text \<open>An agent as the constructor leaves it. Its \<^verbatim>\<open>handHistory\<close>,
  \<^verbatim>\<open>opponentModels\<close> and \<^verbatim>\<open>sessionStats\<close> are written by \<^verbatim>\<open>updateModels\<close> and
  read by no decision; they are not modelled.\<close>

record agent =
  agent_personality :: personalityProfile
  agent_difficulty :: difficultyProfile

text \<open>The snapshot that \<^verbatim>\<open>calculateAIDecision\<close> hands to the agent.\<close>

record gameState =
  gs_communityCards :: "card list"
  gs_pot :: rat
  gs_currentBet :: rat
  gs_players :: "player list"
  gs_gamePhase :: phase

text \<open>A decision \<^verbatim>\<open>{ action, amount, isBluff }\<close>; \<^verbatim>\<open>amount\<close> is absent from a fold,
  check or call.\<close>

record decision =
  d_action :: action
  d_amount :: "rat option"
  d_isBluff :: bool

definition plain :: "action \<Rightarrow> decision" where
  "plain a = \<lparr>d_action = a, d_amount = None, d_isBluff = False\<rparr>"

definition raiseOf :: "rat \<Rightarrow> decision" where
  "raiseOf a = \<lparr>d_action = Raise, d_amount = Some a, d_isBluff = False\<rparr>"

subsection \<open>The stages of the pipeline\<close>

text \<open>\<^verbatim>\<open>Math.random()\<close> is a sequence \<open>draws\<close> of numbers in \<open>[0, 1)\<close> together with
  the number \<open>k\<close> of draws made so far; a stage that draws returns the new count.\<close>

definition calculateRaiseSize :: "agent \<Rightarrow> rat \<Rightarrow> phase \<Rightarrow> rat" where
  "calculateRaiseSize ai handStrength ph =
     (let multiplier = (case ph of Preflop \<Rightarrow> 3 | Flop \<Rightarrow> 7 / 10 | Turn \<Rightarrow> 8 / 10
                          | River \<Rightarrow> 9 / 10 | Showdown \<Rightarrow> 7 / 10);
          sizeMultiplier = 1 + handStrength * multiplier
      in sizeMultiplier * (1 + aggression (agent_personality ai) * (3 / 10)))"

definition evaluatePocketPairs :: "rat \<Rightarrow> rat" where
  "evaluatePocketPairs handStrength =
     (if handStrength > 8 / 10 then 1 / 10
      else if handStrength > 6 / 10 then 5 / 100
      else if handStrength > 4 / 10 then 2 / 100
      else 0)"

definition evaluateSuitedConnectors :: "rat \<Rightarrow> rat" where
  "evaluateSuitedConnectors handStrength =
     (if handStrength > 3 / 10 \<and> handStrength < 7 / 10 then 5 / 100 else 0)"

definition checkOrCall :: "rat \<Rightarrow> decision" where
  "checkOrCall callAmount = (if callAmount = 0 then plain Check else plain Call)"

definition getPreflopDecision ::
  "agent \<Rightarrow> rat \<Rightarrow> rat \<Rightarrow> rat \<Rightarrow> (nat \<Rightarrow> rat) \<Rightarrow> nat \<Rightarrow> decision \<times> nat" where
  "getPreflopDecision ai handStrength callAmount playerChips draws k =
     (let pocketPairStrength = evaluatePocketPairs handStrength;
          suitedConnectorStrength = evaluateSuitedConnectors handStrength;
          adjusted1 = (if pocketPairStrength > 0 then handStrength + pocketPairStrength
                       else handStrength);
          adjustedStrength =
            (if vpip (agent_personality ai) > 3 / 10 \<and> suitedConnectorStrength > 0
             then adjusted1 + suitedConnectorStrength * (1 / 10) else adjusted1)
      in if adjustedStrength \<ge> 8 / 10
         then (raiseOf (min (callAmount * 3) (playerChips * (1 / 10))), k)
         else if adjustedStrength \<ge> 6 / 10 then (checkOrCall callAmount, k)
         else if adjustedStrength \<ge> 4 / 10
         then (if vpip (agent_personality ai) > draws k then (checkOrCall callAmount, k + 1)
               else (plain Fold, k + 1))
         else (plain Fold, k))"

text \<open>The pot odds are \<^verbatim>\<open>callAmount / (pot + callAmount)\<close> for a positive call amount;
  a zero denominator makes the quotient \<open>Infinity\<close>, for which the test of
  \<^verbatim>\<open>getBaseDecision\<close> succeeds.\<close>

definition potOddsFavourable :: "rat \<Rightarrow> rat \<Rightarrow> rat \<Rightarrow> bool" where
  "potOddsFavourable potSize callAmount handStrength =
     (if callAmount > 0 then
        (if potSize + callAmount = 0 then True
         else (let potOdds = callAmount / (potSize + callAmount)
               in potOdds > 0 \<and> 1 - handStrength < potOdds * 2))
      else False)"

definition getBaseDecision ::
  "agent \<Rightarrow> rat \<Rightarrow> rat \<Rightarrow> phase \<Rightarrow> rat \<Rightarrow> rat \<Rightarrow> (nat \<Rightarrow> rat) \<Rightarrow> nat \<Rightarrow> decision \<times> nat"
  where
  "getBaseDecision ai handStrength potSize ph callAmount playerChips draws k =
     (if ph = Preflop then getPreflopDecision ai handStrength callAmount playerChips draws k
      else if handStrength \<ge> raiseThreshold (agent_personality ai)
      then (raiseOf (calculateRaiseSize ai handStrength ph), k)
      else if handStrength \<ge> callThreshold (agent_personality ai)
              \<or> potOddsFavourable potSize callAmount handStrength
      then (checkOrCall callAmount, k)
      else (plain Fold, k))"

definition applyPersonalityAdjustments ::
  "agent \<Rightarrow> decision \<Rightarrow> rat \<Rightarrow> gameState \<Rightarrow> (nat \<Rightarrow> rat) \<Rightarrow> nat \<Rightarrow> decision \<times> nat"
  where
  "applyPersonalityAdjustments ai d handStrength gs draws k =
     (let p = agent_personality ai;
          d1 = (if aggression p > draws k \<and> d_action d = Call
                then (if handStrength > 5 / 10
                      then raiseOf (calculateRaiseSize ai handStrength (gs_gamePhase gs))
                      else d)
                else d);
          d2 = (if aggression p < 3 / 10 \<and> d_action d1 = Raise
                then (if handStrength < 9 / 10 then plain Call else d1)
                else d1);
          d3 = (if callThreshold p > 5 / 10 \<and> handStrength < 6 / 10
                then (if d_action d2 \<noteq> Fold \<and> gs_currentBet gs > gs_pot gs * (3 / 10)
                      then plain Fold else d2)
                else d2)
      in (d3, k + 1))"

text \<open>\<^verbatim>\<open>if (decision.amount)\<close> holds for an amount that is present and not 0.\<close>

definition applyDifficultyAdjustments ::
  "agent \<Rightarrow> decision \<Rightarrow> rat \<Rightarrow> (nat \<Rightarrow> rat) \<Rightarrow> nat \<Rightarrow> decision \<times> nat" where
  "applyDifficultyAdjustments ai d handStrength draws k =
     (let rate = errorRate (agent_difficulty ai);
          scaled = (case d_amount d of
                      None \<Rightarrow> d
                    | Some a \<Rightarrow>
                        if a \<noteq> 0
                        then d\<lparr>d_amount :=
                               Some (a * (5 / 10 + skillMod (agent_difficulty ai) * (5 / 10)))\<rparr>
                        else d)
      in if draws k < rate then
           (if d_action d = Fold \<and> handStrength > 6 / 10 then (plain Call, k + 1)
            else if d_action d = Raise \<and> handStrength < 4 / 10 then (plain Fold, k + 1)
            else if d_action d = Call \<and> handStrength < 3 / 10 then (plain Fold, k + 1)
            else (scaled, k + 1))
         else (scaled, k + 1))"

text \<open>\<^verbatim>\<open>checkStraightDraws\<close> on the ranks of the board: three distinct ranks within a
  span of four, or an ace together with a rank of five or less.\<close>

definition checkStraightDraws :: "nat list \<Rightarrow> bool" where
  "checkStraightDraws ranks =
     (if length ranks < 3 then False
      else (let uniqueRanks = sort (remdups ranks) in
            list_ex (\<lambda>i. int (uniqueRanks ! (i + 2)) - int (uniqueRanks ! i) \<le> 4)
              [0 ..< length uniqueRanks - 2]
            \<or> (14 \<in> set uniqueRanks \<and> list_ex (\<lambda>r. r \<le> 5) uniqueRanks)))"

text \<open>The field \<^verbatim>\<open>scary\<close> of \<^verbatim>\<open>analyzeBoardTexture\<close>, the only one that is read.\<close>

definition boardIsScary :: "card list \<Rightarrow> bool" where
  "boardIsScary cs =
     (if length cs < 3 then False
      else (let suits = map card_suit cs;
                ranks = sort (map card_value cs);
                maxSuitCount = Max (set (map (\<lambda>s. count_list suits s) suits));
                hasGaps = checkStraightDraws ranks;
                pairs = length (filter (\<lambda>r. count_list ranks r \<ge> 2) (remdups ranks))
            in maxSuitCount \<ge> 3 \<or> hasGaps \<or> pairs > 0))"

definition shouldBluff ::
  "agent \<Rightarrow> gameState \<Rightarrow> rat \<Rightarrow> (nat \<Rightarrow> rat) \<Rightarrow> nat \<Rightarrow> bool \<times> nat" where
  "shouldBluff ai gs handStrength draws k =
     (if handStrength > 7 / 10 then (False, k)
      else if draws k > bluffFreq (agent_personality ai) then (False, k + 1)
      else (let activeOpponents =
                  int (length (filter (\<lambda>p. isActive p \<and> \<not> isFolded p) (gs_players gs))) - 1
            in if activeOpponents > 2 then (False, k + 1)
               else (boardIsScary (gs_communityCards gs) \<and> gs_gamePhase gs \<noteq> Preflop,
                     k + 1)))"

definition generateBluff :: "gameState \<Rightarrow> player \<Rightarrow> (nat \<Rightarrow> rat) \<Rightarrow> nat \<Rightarrow> decision \<times> nat"
  where
  "generateBluff gs p draws k =
     (let bluffSize = gs_pot gs * (6 / 10 + draws k * (4 / 10))
      in (\<lparr>d_action = Raise, d_amount = Some (min bluffSize (chips p * (3 / 10))),
           d_isBluff = True\<rparr>, k + 1))"

subsection \<open>\<^verbatim>\<open>makeDecision\<close>\<close>

text \<open>The results of \<^verbatim>\<open>analyzeOpponents\<close> and \<^verbatim>\<open>calculatePositionStrength\<close> are
  computed and then read by no stage; both are sums and quotients that cannot throw and
  are left out.\<close>

definition makeDecision ::
  "agent \<Rightarrow> gameState \<Rightarrow> player \<Rightarrow> (nat \<Rightarrow> rat) \<Rightarrow> nat \<Rightarrow> error + decision \<times> nat" where
  "makeDecision ai gs p draws k =
     (case getHandStrength (cards p) (gs_communityCards gs) of
        Inl e \<Rightarrow> Inl e
      | Inr handStrength \<Rightarrow>
          (let callAmount = gs_currentBet gs - currentBet p;
               (d0, k0) = getBaseDecision ai handStrength (gs_pot gs) (gs_gamePhase gs)
                            callAmount (chips p) draws k;
               (d1, k1) = applyPersonalityAdjustments ai d0 handStrength gs draws k0;
               (d2, k2) = applyDifficultyAdjustments ai d1 handStrength draws k1;
               (bluff, k3) = shouldBluff ai gs handStrength draws k2
           in if bluff then Inr (generateBluff gs p draws k3) else Inr (d2, k3)))"

text \<open>\<^verbatim>\<open>calculateAIDecision\<close> of the engine for seat \<open>i\<close>: the agent is created from
  the seat's personality and the engine's difficulty level (3 in the constructor); a
  missing profile makes the first read of one of its fields throw.\<close>

definition createAI :: "personalityName option \<Rightarrow> nat \<Rightarrow> error + agent" where
  "createAI pers level =
     (case pers of
        None \<Rightarrow> Inl TypeError
      | Some n \<Rightarrow>
          (case DIFFICULTY_MODIFIERS level of
             None \<Rightarrow> Inl TypeError
           | Some d \<Rightarrow> Inr \<lparr>agent_personality = PERSONALITIES n, agent_difficulty = d\<rparr>))"

definition aiDifficulty :: nat where
  "aiDifficulty = 3"

definition calculateAIDecision ::
  "engine \<Rightarrow> nat \<Rightarrow> (nat \<Rightarrow> rat) \<Rightarrow> nat \<Rightarrow> error + decision \<times> nat" where
  "calculateAIDecision s i draws k =
     (if \<not> i < length (players s) then Inl TypeError
      else
        (case createAI (personality (players s ! i)) aiDifficulty of
           Inl e \<Rightarrow> Inl e
         | Inr ai \<Rightarrow>
             (case getCurrentBet s of
                None \<Rightarrow> Inl NotANumber
              | Some bet \<Rightarrow>
                  makeDecision ai
                    \<lparr>gs_communityCards = communityCards s, gs_pot = pot s, gs_currentBet = bet,
                     gs_players = players s, gs_gamePhase = gamePhase s\<rparr>
                    (players s ! i) draws k)))"

text \<open>\<^verbatim>\<open>executePlayerAction(player, decision.action, decision.amount)\<close>: the parameter
  \<^verbatim>\<open>amount\<close> defaults to 0.\<close>

definition amountOf :: "decision \<Rightarrow> rat" where
  "amountOf d = (case d_amount d of Some a \<Rightarrow> a | None \<Rightarrow> 0)"

subsection \<open>Raises carry an amount\<close>

text \<open>A decision is \<open>sized\<close> when it is not a raise or has an amount. Every stage of
  the pipeline returns sized decisions.\<close>

definition sized :: "decision \<Rightarrow> bool" where
  "sized d = (d_action d \<noteq> Raise \<or> d_amount d \<noteq> None)"

lemma sized_plain [simp]: "sized (plain a) = (a \<noteq> Raise)"
  by (simp add: sized_def plain_def)

lemma sized_raiseOf [simp]: "sized (raiseOf a)"
  by (simp add: sized_def raiseOf_def)

lemma sized_checkOrCall [simp]: "sized (checkOrCall c)"
  by (simp add: checkOrCall_def)

lemma sized_getBaseDecision:
  "sized (fst (getBaseDecision ai hs potSize ph callAmount playerChips draws k))"
  by (simp add: getBaseDecision_def getPreflopDecision_def Let_def)

lemma sized_applyPersonalityAdjustments:
  "sized d \<Longrightarrow> sized (fst (applyPersonalityAdjustments ai d hs gs draws k))"
  by (simp add: applyPersonalityAdjustments_def Let_def)

lemma sized_applyDifficultyAdjustments:
  "sized d \<Longrightarrow> sized (fst (applyDifficultyAdjustments ai d hs draws k))"
  by (auto simp: applyDifficultyAdjustments_def Let_def sized_def plain_def
      split: option.splits)

lemma sized_generateBluff: "sized (fst (generateBluff gs p draws k))"
  by (simp add: generateBluff_def Let_def sized_def)

lemma sized_makeDecision:
  assumes "makeDecision ai gs p draws k = Inr (d, k')"
  shows "sized d"
proof -
  from assms obtain hs where hs: "getHandStrength (cards p) (gs_communityCards gs) = Inr hs"
    by (auto simp: makeDecision_def split: sum.splits)
  define b where "b = getBaseDecision ai hs (gs_pot gs) (gs_gamePhase gs)
                        (gs_currentBet gs - currentBet p) (chips p) draws k"
  define a where "a = applyPersonalityAdjustments ai (fst b) hs gs draws (snd b)"
  define c where "c = applyDifficultyAdjustments ai (fst a) hs draws (snd a)"
  define sb where "sb = shouldBluff ai gs hs draws (snd c)"
  have sc: "sized (fst c)"
    unfolding c_def a_def b_def
    by (intro sized_applyDifficultyAdjustments sized_applyPersonalityAdjustments
          sized_getBaseDecision)
  from assms hs have "(d, k') = (if fst sb then generateBluff gs p draws (snd sb)
                                 else (fst c, snd sb))"
    by (simp add: makeDecision_def Let_def split_beta sb_def c_def a_def b_def split: if_splits)
  then have "d = fst (generateBluff gs p draws (snd sb)) \<or> d = fst c"
    by (auto split: if_splits dest: arg_cong [where f = fst])
  with sc sized_generateBluff show ?thesis by auto
qed

lemma commit_chips:
  "i < length (players s) \<Longrightarrow>
     chips (players (commit i amount s) ! i) = chips (players s ! i) - amount
     \<and> pot (commit i amount s) = pot s + amount"
  by (simp add: commit_def Let_def)

subsection \<open>A short stack facing a bet\<close>

text \<open>A deck that deals K\<heartsuit> Q\<diamondsuit> to seat 0, 9\<heartsuit> 4\<diamondsuit> to seat 1 and the pocket sevens
  7\<spadesuit> 7\<clubsuit> to seat 2, burns 3\<heartsuit> and puts 7\<heartsuit> 7\<diamondsuit> 2\<clubsuit> on the flop (cards are drawn from
  the end).\<close>

definition pocketSevensDeck :: "card list" where
  "pocketSevensDeck =
     [mkCard ''2'' Hearts 2, mkCard ''4'' Hearts 4, mkCard ''5'' Hearts 5,
      mkCard ''6'' Hearts 6, mkCard ''8'' Hearts 8, mkCard ''10'' Hearts 10,
      mkCard ''J'' Hearts 11, mkCard ''Q'' Hearts 12, mkCard ''A'' Hearts 14,
      mkCard ''2'' Diamonds 2, mkCard ''3'' Diamonds 3, mkCard ''5'' Diamonds 5,
      mkCard ''6'' Diamonds 6, mkCard ''8'' Diamonds 8, mkCard ''9'' Diamonds 9,
      mkCard ''10'' Diamonds 10, mkCard ''J'' Diamonds 11, mkCard ''K'' Diamonds 13,
      mkCard ''A'' Diamonds 14, mkCard ''3'' Clubs 3, mkCard ''4'' Clubs 4,
      mkCard ''5'' Clubs 5, mkCard ''6'' Clubs 6, mkCard ''8'' Clubs 8,
      mkCard ''9'' Clubs 9, mkCard ''10'' Clubs 10, mkCard ''J'' Clubs 11,
      mkCard ''Q'' Clubs 12, mkCard ''K'' Clubs 13, mkCard ''A'' Clubs 14,
      mkCard ''2'' Spades 2, mkCard ''3'' Spades 3, mkCard ''4'' Spades 4,
      mkCard ''5'' Spades 5, mkCard ''6'' Spades 6, mkCard ''8'' Spades 8,
      mkCard ''9'' Spades 9, mkCard ''10'' Spades 10, mkCard ''J'' Spades 11,
      mkCard ''Q'' Spades 12, mkCard ''K'' Spades 13, mkCard ''A'' Spades 14,
      mkCard ''2'' Clubs 2, mkCard ''7'' Diamonds 7, mkCard ''7'' Hearts 7,
      mkCard ''3'' Hearts 3, mkCard ''7'' Clubs 7, mkCard ''4'' Diamonds 4,
      mkCard ''Q'' Diamonds 12, mkCard ''7'' Spades 7, mkCard ''9'' Hearts 9,
      mkCard ''K'' Hearts 13]"

text \<open>The table of \<^verbatim>\<open>setupPlayers\<close> with thirty chips in seat 2, the big blind.\<close>

definition thirtyChipTable :: engine where
  "thirtyChipTable = newEngine\<lparr>players :=
      [setupPlayers ! 0, setupPlayers ! 1, (setupPlayers ! 2)\<lparr>chips := 30\<rparr>]\<rparr>"

text \<open>The state on the flop after seat 1 has bet 100: seat 2 holds four sevens and 20
  chips and is next to act.\<close>

definition facingBet :: engine where
  "facingBet = newEngine\<lparr>
     deck := take 42 pocketSevensDeck,
     communityCards := [mkCard ''7'' Hearts 7, mkCard ''7'' Diamonds 7, mkCard ''2'' Clubs 2],
     players :=
       [(setupPlayers ! 0)\<lparr>chips := 990, totalInvested := 10,
          cards := [mkCard ''K'' Hearts 13, mkCard ''Q'' Diamonds 12]\<rparr>,
        (setupPlayers ! 1)\<lparr>chips := 890, currentBet := 100, totalInvested := 110,
          cards := [mkCard ''9'' Hearts 9, mkCard ''4'' Diamonds 4]\<rparr>,
        (setupPlayers ! 2)\<lparr>chips := 20, totalInvested := 10,
          cards := [mkCard ''7'' Spades 7, mkCard ''7'' Clubs 7]\<rparr>],
     currentPlayerIndex := 2, pot := 130, gamePhase := Flop, gameStarted := True,
     handNumber := 1\<rparr>"

text \<open>The engine reaches that state: the hand starts, seats 0 and 1 call the big
  blind, the flop is dealt, and seat 1 opens with a raise of 100.\<close>

lemma facingBet_reached:
  "thenAct (thenAct (thenAct (startNewHand pocketSevensDeck thirtyChipTable) 0 Call 0)
      1 Call 0) 1 Raise 100 = Some (Inr facingBet)"
  by (simp add: thenAct_def facingBet_def thirtyChipTable_def pocketSevensDeck_def
        engine_defs Let_def)

lemma quads_strength:
  "getHandStrength [mkCard ''7'' Spades 7, mkCard ''7'' Clubs 7]
     [mkCard ''7'' Hearts 7, mkCard ''7'' Diamonds 7, mkCard ''2'' Clubs 2] = Inr (187 / 200)"
  by (simp add: getHandStrength_def baseStrength_def evaluator_defs mkCard_def)

lemma facingBet_facts:
  "players facingBet ! 2 = (setupPlayers ! 2)\<lparr>chips := 20, totalInvested := 10,
          cards := [mkCard ''7'' Spades 7, mkCard ''7'' Clubs 7]\<rparr>"
  "length (players facingBet) = 3"
  "getCurrentBet facingBet = Some 100"
  "communityCards facingBet
     = [mkCard ''7'' Hearts 7, mkCard ''7'' Diamonds 7, mkCard ''2'' Clubs 2]"
  "pot facingBet = 130" "gamePhase facingBet = Flop"
  by (simp_all add: facingBet_def getCurrentBet_def setupPlayers_def newPlayer_def
        newEngine_def)

lemmas agent_defs =
  makeDecision_def getBaseDecision_def getPreflopDecision_def applyPersonalityAdjustments_def
  applyDifficultyAdjustments_def shouldBluff_def generateBluff_def calculateRaiseSize_def
  PERSONALITIES_def DIFFICULTY_MODIFIERS_def createAI_def aiDifficulty_def plain_def
  raiseOf_def checkOrCall_def potOddsFavourable_def amountOf_def

text \<open>Whatever the draws, the agent of seat 2 raises there: the strength 0.935 of its
  four sevens is above the raise threshold 0.5 of the aggressive profile, the size
  (1 + 0.935 * 0.7) * (1 + 0.7 * 0.3) = 2.001945 is scaled by 0.5 + 0.7 * 0.5 = 0.85, and
  no bluff is considered above strength 0.7. Two numbers are drawn on the way.\<close>

lemma facingBet_decision:
  "calculateAIDecision facingBet 2 draws k
     = Inr (\<lparr>d_action = Raise, d_amount = Some (6806613 / 4000000), d_isBluff = False\<rparr>,
            k + 2)"
  by (simp add: calculateAIDecision_def facingBet_facts quads_strength agent_defs
        setupPlayers_def newPlayer_def Let_def)

text \<open>
  Claim C8 as stated fails. In the state \<open>facingBet\<close>, which the engine reaches from a
  fresh hand, the agent of seat 2 returns a raise of 1.70165325 for every sequence of
  draws. The seat has to call 100 and holds 20 chips: the call amount plus the raise
  amount is above its stack.
\<close>

theorem agent_raise_exceeds_stack:
  "thenAct (thenAct (thenAct (startNewHand pocketSevensDeck thirtyChipTable) 0 Call 0)
      1 Call 0) 1 Raise 100 = Some (Inr facingBet)
   \<and> (\<forall>draws k. \<exists>d k'.
         calculateAIDecision facingBet 2 draws k = Inr (d, k')
         \<and> d_action d = Raise \<and> d_amount d = Some (6806613 / 4000000)
         \<and> getCurrentBet facingBet = Some 100
         \<and> currentBet (players facingBet ! 2) = 0
         \<and> chips (players facingBet ! 2) = 20
         \<and> chips (players facingBet ! 2)
             < 100 - currentBet (players facingBet ! 2) + amountOf d)"
proof (intro conjI allI)
  show "thenAct (thenAct (thenAct (startNewHand pocketSevensDeck thirtyChipTable) 0 Call 0)
      1 Call 0) 1 Raise 100 = Some (Inr facingBet)"
    by (rule facingBet_reached)
next
  fix draws k
  show "\<exists>d k'.
         calculateAIDecision facingBet 2 draws k = Inr (d, k')
         \<and> d_action d = Raise \<and> d_amount d = Some (6806613 / 4000000)
         \<and> getCurrentBet facingBet = Some 100
         \<and> currentBet (players facingBet ! 2) = 0
         \<and> chips (players facingBet ! 2) = 20
         \<and> chips (players facingBet ! 2)
             < 100 - currentBet (players facingBet ! 2) + amountOf d"
    by (simp add: facingBet_decision facingBet_facts amountOf_def setupPlayers_def
          newPlayer_def)
qed

text \<open>
  Claim C8, amended. The raise amount that the agent returns is not bounded by the
  stack, but the chips that the decision commits are: when \<^verbatim>\<open>calculateAIDecision\<close>
  returns a raise for a seat, the raise has an amount, and \<^verbatim>\<open>executePlayerAction\<close>
  with that decision takes from the seat the call amount plus the raise amount clamped
  to the stack, which is no more than the stack, and adds the same chips to the pot.
\<close>

theorem agent_raise_is_clamped_to_stack:
  assumes "calculateAIDecision s i draws k = Inr (d, k')" and "d_action d = Raise"
  shows "\<exists>bet a s'. getCurrentBet s = Some bet \<and> d_amount d = Some a
           \<and> applyAction s i (d_action d) (amountOf d) = Inr s'
           \<and> chips (players s ! i) - chips (players s' ! i)
               = min (bet - currentBet (players s ! i) + a) (chips (players s ! i))
           \<and> chips (players s ! i) - chips (players s' ! i) \<le> chips (players s ! i)
           \<and> pot s' = pot s + (chips (players s ! i) - chips (players s' ! i))"
proof -
  from assms(1) have i: "i < length (players s)"
    by (simp add: calculateAIDecision_def split: if_splits)
  with assms(1) obtain ai bet where
    bet: "getCurrentBet s = Some bet" and
    md: "makeDecision ai
           \<lparr>gs_communityCards = communityCards s, gs_pot = pot s, gs_currentBet = bet,
            gs_players = players s, gs_gamePhase = gamePhase s\<rparr> (players s ! i) draws k
         = Inr (d, k')"
    by (auto simp: calculateAIDecision_def split: sum.splits option.splits)
  from sized_makeDecision [OF md] assms(2) obtain a where a: "d_amount d = Some a"
    by (auto simp: sized_def)
  define total where "total = min (bet - currentBet (players s ! i) + a) (chips (players s ! i))"
  have ap: "applyAction s i (d_action d) (amountOf d) = Inr (commit i total s)"
    using i bet a assms(2) by (simp add: applyAction_def amountOf_def Let_def total_def)
  have le: "total \<le> chips (players s ! i)" by (simp add: total_def)
  from commit_chips [OF i, of total] have
    c: "chips (players (commit i total s) ! i) = chips (players s ! i) - total"
    and p: "pot (commit i total s) = pot s + total" by simp_all
  show ?thesis
    using bet a ap le c p by (simp add: total_def)
qed

text \<open>In the state \<open>facingBet\<close> the raise of seat 2 takes its 20 chips and no more; the
  pot grows from 130 to 150.\<close>

theorem agent_raise_is_clamped_to_stack_witness:
  "calculateAIDecision facingBet 2 (\<lambda>n. 1 / 2) 0
     = Inr (\<lparr>d_action = Raise, d_amount = Some (6806613 / 4000000), d_isBluff = False\<rparr>, 2)
   \<and> (\<exists>s'. applyAction facingBet 2 Raise (6806613 / 4000000) = Inr s'
          \<and> chips (players s' ! 2) = 0 \<and> pot s' = 150)"
proof -
  have d: "calculateAIDecision facingBet 2 (\<lambda>n. 1 / 2) 0
     = Inr (\<lparr>d_action = Raise, d_amount = Some (6806613 / 4000000), d_isBluff = False\<rparr>, 2)"
    by (simp add: facingBet_decision)
  from agent_raise_is_clamped_to_stack [OF d]
  have "\<exists>s'. applyAction facingBet 2 Raise (6806613 / 4000000) = Inr s'
          \<and> chips (players s' ! 2) = 0 \<and> pot s' = 150"
    by (auto simp: facingBet_facts amountOf_def setupPlayers_def newPlayer_def)
  with d show ?thesis by simp
qed

subsection \<open>A showdown over a pot that is not a whole number\<close>

text \<open>The hand on the deck above at the table of \<^verbatim>\<open>setupPlayers\<close>: seats 0 and 1
  call the big blind, seat 1 opens the flop with a raise of 100, seat 2 raises by the
  amount its agent returns, seat 0 folds, seat 1 calls and then checks the turn. The
  first state below is the one in which seat 2 decides, the second the one on the
  river.\<close>

definition betOnFlop :: engine where
  "betOnFlop = newEngine\<lparr>
     deck := take 42 pocketSevensDeck,
     communityCards := [mkCard ''7'' Hearts 7, mkCard ''7'' Diamonds 7, mkCard ''2'' Clubs 2],
     players :=
       [(setupPlayers ! 0)\<lparr>chips := 990, totalInvested := 10,
          cards := [mkCard ''K'' Hearts 13, mkCard ''Q'' Diamonds 12]\<rparr>,
        (setupPlayers ! 1)\<lparr>chips := 890, currentBet := 100, totalInvested := 110,
          cards := [mkCard ''9'' Hearts 9, mkCard ''4'' Diamonds 4]\<rparr>,
        (setupPlayers ! 2)\<lparr>chips := 990, totalInvested := 10,
          cards := [mkCard ''7'' Spades 7, mkCard ''7'' Clubs 7]\<rparr>],
     currentPlayerIndex := 2, pot := 130, gamePhase := Flop, gameStarted := True,
     handNumber := 1\<rparr>"

definition fractionalRiver :: engine where
  "fractionalRiver = newEngine\<lparr>
     deck := take 38 pocketSevensDeck,
     communityCards := [mkCard ''7'' Hearts 7, mkCard ''7'' Diamonds 7, mkCard ''2'' Clubs 2,
                        mkCard ''K'' Spades 13, mkCard ''J'' Spades 11],
     players :=
       [(setupPlayers ! 0)\<lparr>chips := 990, totalInvested := 10, isFolded := True,
          cards := [mkCard ''K'' Hearts 13, mkCard ''Q'' Diamonds 12]\<rparr>,
        (setupPlayers ! 1)\<lparr>chips := 3553193387 / 4000000,
          totalInvested := 446806613 / 4000000,
          cards := [mkCard ''9'' Hearts 9, mkCard ''4'' Diamonds 4]\<rparr>,
        (setupPlayers ! 2)\<lparr>chips := 3553193387 / 4000000,
          totalInvested := 446806613 / 4000000,
          cards := [mkCard ''7'' Spades 7, mkCard ''7'' Clubs 7]\<rparr>],
     currentPlayerIndex := 1, pot := 466806613 / 2000000, gamePhase := River,
     gameStarted := True, handNumber := 1\<rparr>"

lemma betOnFlop_reached:
  "thenAct (thenAct (thenAct (startNewHand pocketSevensDeck newEngine) 0 Call 0)
      1 Call 0) 1 Raise 100 = Some (Inr betOnFlop)"
  by (simp add: thenAct_def betOnFlop_def pocketSevensDeck_def engine_defs Let_def)

lemma fractionalRiver_reached:
  "thenAct (thenAct (thenAct (thenAct (Some (Inr betOnFlop)) 2 Raise (6806613 / 4000000))
      0 Fold 0) 1 Call 0) 1 Check 0 = Some (Inr fractionalRiver)"
  by (simp add: thenAct_def betOnFlop_def fractionalRiver_def pocketSevensDeck_def
        engine_defs Let_def)

definition riverBoard :: "card list" where
  "riverBoard = [mkCard ''7'' Hearts 7, mkCard ''7'' Diamonds 7, mkCard ''2'' Clubs 2,
                 mkCard ''K'' Spades 13, mkCard ''J'' Spades 11]"

lemma quads_on_river:
  "\<exists>cs. getBestFiveCardHand [mkCard ''7'' Spades 7, mkCard ''7'' Clubs 7] riverBoard
     = Inr (Some \<lparr>hand_rank = 8, hand_name = ''Four of a Kind'', kickers = [7, 13],
                  hand_cards = cs\<rparr>)"
  by (simp add: riverBoard_def mkCard_def evaluator_defs)

lemma pair_on_river:
  "\<exists>cs. getBestFiveCardHand [mkCard ''9'' Hearts 9, mkCard ''4'' Diamonds 4] riverBoard
     = Inr (Some \<lparr>hand_rank = 2, hand_name = ''Pair'', kickers = [7, 13, 11, 9],
                  hand_cards = cs\<rparr>)"
  by (simp add: riverBoard_def mkCard_def evaluator_defs)

lemma fractionalRiver_facts:
  "cards (players fractionalRiver ! 1) = [mkCard ''9'' Hearts 9, mkCard ''4'' Diamonds 4]"
  "cards (players fractionalRiver ! 2) = [mkCard ''7'' Spades 7, mkCard ''7'' Clubs 7]"
  "communityCards fractionalRiver = riverBoard"
  "pot fractionalRiver = 466806613 / 2000000"
  "chips (players fractionalRiver ! 2) = 3553193387 / 4000000"
  "length (players fractionalRiver) = 3"
  "gamePhase fractionalRiver = River"
  by (simp_all add: fractionalRiver_def riverBoard_def)

lemma fractionalRiver_contenders: "contenders fractionalRiver = [1, 2]"
  by (simp add: contenders_def fractionalRiver_def setupPlayers_def newPlayer_def upt_rec)

lemma fractionalRiver_hands:
  "hand_rank (seatHand fractionalRiver (Suc 0)) = 2"
  "hand_rank (seatHand fractionalRiver 2) = 8"
proof -
  have c: "cards (players fractionalRiver ! Suc 0)
             = [mkCard ''9'' Hearts 9, mkCard ''4'' Diamonds 4]"
    using fractionalRiver_facts(1) by simp
  from pair_on_river show "hand_rank (seatHand fractionalRiver (Suc 0)) = 2"
    by (auto simp: seatHand_def c fractionalRiver_facts)
  from quads_on_river show "hand_rank (seatHand fractionalRiver 2) = 8"
    by (auto simp: seatHand_def fractionalRiver_facts)
qed

lemma fractionalRiver_winners: "showdownWinners fractionalRiver = [2]"
proof -
  have "compareHands (seatHand fractionalRiver 2) (seatHand fractionalRiver (Suc 0)) \<ge> 0"
    "\<not> compareHands (seatHand fractionalRiver (Suc 0)) (seatHand fractionalRiver 2) \<ge> 0"
    by (simp_all add: compareHands_def fractionalRiver_hands)
  then show ?thesis
    by (simp add: showdownWinners_def fractionalRiver_contenders compareHands_refl)
qed

lemma fractionalRiver_check:
  "executePlayerAction fractionalRiver 1 Check 0 = Some (showdown fractionalRiver)"
proof -
  have c: "isBettingRoundComplete fractionalRiver"
    by (simp add: isBettingRoundComplete_def getCurrentBet_def fractionalRiver_def
          setupPlayers_def newPlayer_def)
  have r: "fractionalRiver\<lparr>players := map (\<lambda>p. p\<lparr>currentBet := 0\<rparr>)
             (players fractionalRiver)\<rparr> = fractionalRiver"
    by (simp add: fractionalRiver_def setupPlayers_def newPlayer_def)
  have "executePlayerAction fractionalRiver 1 Check 0
          = schedule MoveToNextPlayer fractionalRiver"
    by (simp add: executePlayerAction_def applyAction_def fractionalRiver_facts)
  also have "\<dots> = schedule CompleteBettingRound fractionalRiver"
    by (subst schedule.simps) (simp add: c)
  also have "\<dots> = schedule AdvanceGamePhase fractionalRiver"
    by (subst schedule.simps) (simp add: r)
  also have "\<dots> = Some (showdown fractionalRiver)"
    by (subst schedule.simps) (simp add: fractionalRiver_facts)
  finally show ?thesis .
qed

lemma betOnFlop_decision:
  "calculateAIDecision betOnFlop 2 draws k
     = Inr (\<lparr>d_action = Raise, d_amount = Some (6806613 / 4000000), d_isBluff = False\<rparr>,
            k + 2)"
proof -
  have f: "players betOnFlop ! 2 = (setupPlayers ! 2)\<lparr>chips := 990, totalInvested := 10,
          cards := [mkCard ''7'' Spades 7, mkCard ''7'' Clubs 7]\<rparr>"
    "length (players betOnFlop) = 3"
    "getCurrentBet betOnFlop = Some 100"
    "communityCards betOnFlop
       = [mkCard ''7'' Hearts 7, mkCard ''7'' Diamonds 7, mkCard ''2'' Clubs 2]"
    "pot betOnFlop = 130" "gamePhase betOnFlop = Flop"
    by (simp_all add: betOnFlop_def getCurrentBet_def setupPlayers_def newPlayer_def
          newEngine_def)
  show ?thesis
    by (simp add: calculateAIDecision_def f quads_strength agent_defs
          setupPlayers_def newPlayer_def Let_def)
qed

definition fractionalHand :: "(error + engine) option" where
  "fractionalHand =
     thenAct (thenAct (thenAct (thenAct (thenAct (thenAct (thenAct
       (startNewHand pocketSevensDeck newEngine) 0 Call 0) 1 Call 0) 1 Raise 100)
       2 Raise (6806613 / 4000000)) 0 Fold 0) 1 Call 0) 1 Check 0"

text \<open>
  Claim C5 as stated fails. In the hand above the pot on the river is 233.4033065. Seats
  1 and 2 contest it; seat 2 holds four sevens against a pair and is the only winner.
  The last check ends the round and runs the showdown, which pays seat 2 the entire pot
  and not \<open>floor (pot / number of winners) = 233\<close>. The raise that makes the pot
  fractional is the decision of the agent of seat 2 for every sequence of draws.
\<close>

theorem single_winner_takes_fractional_pot:
  "fractionalHand = Some (Inr fractionalRiver)
   \<and> executePlayerAction fractionalRiver 1 Check 0 = Some (showdown fractionalRiver)
   \<and> (\<forall>draws k. calculateAIDecision betOnFlop 2 draws k
         = Inr (\<lparr>d_action = Raise, d_amount = Some (6806613 / 4000000),
                  d_isBluff = False\<rparr>, k + 2))
   \<and> pot fractionalRiver = 466806613 / 2000000
   \<and> contenders fractionalRiver = [1, 2]
   \<and> showdownWinners fractionalRiver = [2]
   \<and> (\<exists>s'. showdown fractionalRiver = Inr s' \<and> pot s' = 0
         \<and> chips (players s' ! 2) = chips (players fractionalRiver ! 2) + pot fractionalRiver
         \<and> chips (players s' ! 2)
             \<noteq> chips (players fractionalRiver ! 2)
               + of_int \<lfloor>pot fractionalRiver
                          / of_nat (length (showdownWinners fractionalRiver))\<rfloor>)"
proof -
  have reached: "fractionalHand = Some (Inr fractionalRiver)"
    unfolding fractionalHand_def
    by (simp only: betOnFlop_reached fractionalRiver_reached)
  have ne: "contenders fractionalRiver \<noteq> []" by (simp add: fractionalRiver_contenders)
  have share: "winnerShare fractionalRiver = 466806613 / 2000000"
    by (simp add: winnerShare_def fractionalRiver_winners fractionalRiver_facts)
  have fl: "\<lfloor>466806613 / 2000000 :: rat\<rfloor> = 233"
    by (simp add: floor_rat_numerals)
  from showdown_result [OF ne] obtain s' where
    s': "showdown fractionalRiver = Inr s'" "pot s' = 0"
      "chips (players s' ! 2) = chips (players fractionalRiver ! 2) + 466806613 / 2000000"
    by (auto simp: fractionalRiver_winners share fractionalRiver_facts)
  have "chips (players s' ! 2)
             \<noteq> chips (players fractionalRiver ! 2)
               + of_int \<lfloor>pot fractionalRiver
                          / of_nat (length (showdownWinners fractionalRiver))\<rfloor>"
    by (simp add: s'(3) fractionalRiver_winners fractionalRiver_facts fl)
  with s' reached fractionalRiver_check fractionalRiver_contenders fractionalRiver_winners
    betOnFlop_decision
  show ?thesis by (simp add: fractionalRiver_facts)
qed

end
